theory Spec2Isabelle
  imports Complex_Main
begin

section \<open>JavaScript strings and numbers\<close>

text \<open>
  Strings of the sources are modelled as \<open>string\<close> (lists of 8-bit characters, so the
  inputs range over Latin-1 text), numbers that count things as \<open>nat\<close> or \<open>int\<close>, and
  relevance scores as \<open>real\<close> (the arithmetic of the source is IEEE double arithmetic;
  the model computes with exact reals).
\<close>

definition digit_char :: "nat \<Rightarrow> char" where
  "digit_char d =
     (if d = 0 then CHR ''0'' else if d = 1 then CHR ''1'' else if d = 2 then CHR ''2''
      else if d = 3 then CHR ''3'' else if d = 4 then CHR ''4'' else if d = 5 then CHR ''5''
      else if d = 6 then CHR ''6'' else if d = 7 then CHR ''7'' else if d = 8 then CHR ''8''
      else CHR ''9'')"

text \<open>Decimal rendering of a count, as a template literal \<open>${i}\<close> prints it.\<close>

function show_nat :: "nat \<Rightarrow> string" where
  "show_nat n = (if n < 10 then [digit_char n] else show_nat (n div 10) @ [digit_char (n mod 10)])"
  by pat_completeness auto
termination
  by (relation "measure id") auto

declare show_nat.simps [simp del]

definition show_int :: "int \<Rightarrow> string" where
  "show_int i = (if i < 0 then CHR ''-'' # show_nat (nat (- i)) else show_nat (nat i))"

section \<open>The knowledge base (src/types/kb.types.ts)\<close>

datatype pr_state = Open | Closed | Merged

record RepoPRStats =
  stats_repo :: string
  totalPRs :: int
  openPRs :: int
  closedPRs :: int
  mergedPRs :: int

record KBMeta =
  generatedAt :: string
  sourceScope :: string
  repoCount :: int
  docCount :: int
  version :: string
  prStats :: "RepoPRStats list option"

record DocLocation =
  startLine :: nat
  endLine :: nat

record PullRequestInfo =
  pr_number :: int
  pr_title :: string
  changedFilesCount :: int
  pr_state :: pr_state
  createdAt :: string
  updatedAt :: string
  url :: string

record KBDocument =
  doc_id :: string
  repo :: string
  path :: string
  lang :: string
  loc :: DocLocation
  title :: string
  contentExcerpt :: string
  tags :: "string list"
  hash :: string
  pullRequest :: "PullRequestInfo option"

text \<open>
  \<open>embeddingsLite\<close> is an optional JavaScript object from document id to vector; it is an
  association list in key insertion order, the order in which \<open>Object.entries\<close> lists it.
\<close>

record KBIndex =
  lunrIndex :: string
  embeddingsLite :: "(string \<times> real list) list option"

record KnowledgeBase =
  meta :: KBMeta
  docs :: "KBDocument list"
  index :: KBIndex

section \<open>Validation and persistence (scripts/modules/kb-schema.ts)\<close>

definition MAX_KB_SIZE :: nat where
  "MAX_KB_SIZE = 20 * 1024 * 1024"

text \<open>
  One document's checks of \<open>validateKB\<close>, in the order of the source. The check of
  \<open>doc.loc\<close> tests the run-time type of the two line numbers; a \<open>KBDocument\<close> always has
  them, so it contributes no error here.
\<close>

definition validateDoc :: "nat \<Rightarrow> KBDocument \<Rightarrow> string list" where
  "validateDoc idx doc =
     (if doc_id doc = [] then [''Doc '' @ show_nat idx @ '': missing id''] else []) @
     (if repo doc = [] then [''Doc '' @ show_nat idx @ '': missing repo''] else []) @
     (if path doc = [] then [''Doc '' @ show_nat idx @ '': missing path''] else []) @
     (if lang doc = [] then [''Doc '' @ show_nat idx @ '': missing lang''] else []) @
     (if contentExcerpt doc = [] then [''Doc '' @ show_nat idx @ '': missing contentExcerpt''] else []) @
     (if hash doc = [] then [''Doc '' @ show_nat idx @ '': missing hash''] else [])"

fun validateDocs :: "nat \<Rightarrow> KBDocument list \<Rightarrow> string list" where
  "validateDocs idx [] = []"
| "validateDocs idx (d # ds) = validateDoc idx d @ validateDocs (Suc idx) ds"

definition validateKB_errors :: "KnowledgeBase \<Rightarrow> string list" where
  "validateKB_errors kb =
     (if generatedAt (meta kb) = [] then [''Missing meta.generatedAt''] else []) @
     (if sourceScope (meta kb) \<notin> set [''public-only'', ''private-local'']
      then [''Invalid meta.sourceScope''] else []) @
     (if repoCount (meta kb) < 0 then [''Invalid meta.repoCount''] else []) @
     (if docCount (meta kb) \<noteq> int (length (docs kb))
      then [''meta.docCount ('' @ show_int (docCount (meta kb)) @ '') doesn't match docs.length (''
              @ show_nat (length (docs kb)) @ '')'']
      else []) @
     validateDocs 0 (docs kb) @
     (if lunrIndex (index kb) = [] then [''Missing index.lunrIndex''] else [])"

text \<open>\<open>validateKB\<close> returns \<open>{valid, errors}\<close> with \<open>valid = (errors.length === 0)\<close>.\<close>

definition validateKB :: "KnowledgeBase \<Rightarrow> bool \<times> string list" where
  "validateKB kb = (validateKB_errors kb = [], validateKB_errors kb)"

text \<open>
  \<open>JSON.stringify\<close> and \<open>join\<close> of \<open>path\<close> are the platform's and are taken as
  parameters: the two encodings the build writes, and the function that makes a file
  name of a directory and a name (it also normalises the result, in a way that depends
  on the operating system). \<open>Buffer.byteLength\<close> of the compact encoding is its length
  in bytes.
\<close>

record serializer =
  stringify :: "KnowledgeBase \<Rightarrow> string"
  stringify_pretty :: "KnowledgeBase \<Rightarrow> string"
  join :: "string \<Rightarrow> string \<Rightarrow> string"

definition ensureSizeConstraint :: "serializer \<Rightarrow> KnowledgeBase \<Rightarrow> bool" where
  "ensureSizeConstraint ser kb = (\<not> MAX_KB_SIZE < length (stringify ser kb))"

datatype kb_error = KBValidationFailed "string list" | KBSizeExceeded

type_synonym filesystem = "string \<rightharpoonup> string"

text \<open>
  \<open>writeKB\<close>: a thrown error leaves the file system as it was; otherwise the readable
  encoding is written to \<open>kb.json\<close> and then the compact one to \<open>kb.min.json\<close>.
\<close>

definition writeKB ::
  "serializer \<Rightarrow> KnowledgeBase \<Rightarrow> string \<Rightarrow> filesystem \<Rightarrow> (kb_error + unit) \<times> filesystem" where
  "writeKB ser kb outputDir fs =
     (let validation = validateKB kb in
      if \<not> fst validation then (Inl (KBValidationFailed (snd validation)), fs)
      else if \<not> ensureSizeConstraint ser kb then (Inl KBSizeExceeded, fs)
      else
        let outputPath = join ser outputDir ''kb.json'';
            minOutputPath = join ser outputDir ''kb.min.json'';
            fs1 = fs(outputPath \<mapsto> stringify_pretty ser kb);
            fs2 = fs1(minOutputPath \<mapsto> stringify ser kb)
        in (Inr (), fs2))"

text \<open>
  The integrity the specification asks for: every key of the vector map is the id of a
  document of the artifact.
\<close>

definition vector_keys_reference_docs :: "KnowledgeBase \<Rightarrow> bool" where
  "vector_keys_reference_docs kb =
     (case embeddingsLite (index kb) of
        None \<Rightarrow> True
      | Some emb \<Rightarrow> list_all (\<lambda>k. k \<in> set (map doc_id (docs kb))) (map fst emb))"

section \<open>String primitives of the platform\<close>

text \<open>
  White space as \<open>String.prototype.trim\<close> and the regular-expression class \<open>\s\<close> see it,
  within Latin-1: tab, line feed, vertical tab, form feed, carriage return, space and
  the no-break space.
\<close>

definition is_ws :: "char \<Rightarrow> bool" where
  "is_ws c = (of_char c \<in> set [9, 10, 11, 12, 13, 32, 160 :: nat])"

definition trim :: "string \<Rightarrow> string" where
  "trim s = rev (dropWhile is_ws (rev (dropWhile is_ws s)))"

text \<open>
  \<open>s.split(/\s+/)\<close>: the fields between maximal runs of white space; a leading or a
  trailing run leaves an empty field, and the empty string gives one empty field.
\<close>

function split_ws :: "string \<Rightarrow> string list" where
  "split_ws [] = [[]]"
| "split_ws (c # cs) =
     (if is_ws c then [] # split_ws (dropWhile is_ws cs)
      else (case split_ws cs of [] \<Rightarrow> [[c]] | w # ws \<Rightarrow> (c # w) # ws))"
  by pat_completeness auto
termination
  by (relation "measure length") (auto simp: length_dropWhile_le less_Suc_eq_le)

text \<open>\<open>s.split(/\s+/).filter((word) => word.length > 0)\<close>: the words of \<open>s\<close>.\<close>

definition tokens :: "string \<Rightarrow> string list" where
  "tokens s = filter (\<lambda>w. 0 < length w) (split_ws s)"

text \<open>\<open>s.split(d)\<close> for a one-character separator.\<close>

fun split_on :: "char \<Rightarrow> string \<Rightarrow> string list" where
  "split_on d [] = [[]]"
| "split_on d (c # cs) =
     (if c = d then [] # split_on d cs
      else (case split_on d cs of [] \<Rightarrow> [[c]] | w # ws \<Rightarrow> (c # w) # ws))"

text \<open>\<open>toLowerCase\<close> on Latin-1: the letters A to Z and the accented capitals.\<close>

definition lower_char :: "char \<Rightarrow> char" where
  "lower_char c =
     (let n = (of_char c :: nat) in
      if (65 \<le> n \<and> n \<le> 90) \<or> (192 \<le> n \<and> n \<le> 222 \<and> n \<noteq> 215) then char_of (n + 32) else c)"

definition toLowerCase :: "string \<Rightarrow> string" where
  "toLowerCase s = map lower_char s"

section \<open>The retrieval engine (src/lib/search)\<close>

datatype SearchMode = Keyword | Semantic | Hybrid

datatype pr_filter = StatusIs pr_state | StatusAll

record SearchFilters =
  f_repo :: "string option"
  f_language :: "string option"
  f_tag :: "string option"
  f_prStatus :: "pr_filter option"
  f_fileType :: "string option"

type_synonym matchData = "(string \<times> (string \<times> nat list list) list) list"

record SearchResult =
  doc :: KBDocument
  score :: real
  matchData :: "matchData option"

text \<open>One hit of the text index: \<open>{ref, score, matchData}\<close>.\<close>

record lunr_result =
  ref :: string
  hit_score :: real
  hit_matchData :: "matchData option"

text \<open>
  The loaded text index is the library's object; it is modelled by what \<open>search\<close> asks of
  it: a query string gives the ranked hits, or the library throws on a query it cannot
  parse.
\<close>

type_synonym lunr_index = "string \<Rightarrow> string + lunr_result list"

datatype search_error =
    LoadFailed
  | NotInitialized
  | MalformedArtifact
  | MinWords
  | QueryParseError string
  | EmbeddingsRequired

text \<open>A JavaScript string used as a condition is true when it is present and not empty.\<close>

definition truthy :: "string option \<Rightarrow> bool" where
  "truthy v = (case v of None \<Rightarrow> False | Some s \<Rightarrow> s \<noteq> [])"

text \<open>\<open>doc.path.split('.').pop()?.toLowerCase()\<close>; \<open>split\<close> never returns an empty array.\<close>

definition fileExt :: "KBDocument \<Rightarrow> string" where
  "fileExt d = toLowerCase (last (split_on CHR ''.'' (path d)))"

text \<open>
  The filter block shared by the keyword mapping and the semantic loop: \<open>True\<close> when the
  document is kept.
\<close>

definition passes_filters :: "SearchFilters option \<Rightarrow> KBDocument \<Rightarrow> bool" where
  "passes_filters filters d =
     (case filters of
        None \<Rightarrow> True
      | Some f \<Rightarrow>
          if truthy (f_repo f) \<and> Some (repo d) \<noteq> f_repo f then False
          else if truthy (f_language f) \<and> Some (lang d) \<noteq> f_language f then False
          else if truthy (f_tag f) \<and> the (f_tag f) \<notin> set (tags d) then False
          else if (case f_prStatus f of
                     Some (StatusIs st) \<Rightarrow>
                       (case pullRequest d of None \<Rightarrow> True | Some pr \<Rightarrow> pr_state pr \<noteq> st)
                   | _ \<Rightarrow> False) then False
          else if truthy (f_fileType f) \<and> fileExt d \<noteq> toLowerCase (the (f_fileType f)) then False
          else True)"

text \<open>The callback of \<open>keywordResults.map\<close>: \<open>None\<close> is the source's \<open>null\<close>.\<close>

definition map_hit :: "KnowledgeBase \<Rightarrow> SearchFilters option \<Rightarrow> lunr_result \<Rightarrow> SearchResult option" where
  "map_hit kb filters result =
     (case find (\<lambda>d. doc_id d = ref result) (docs kb) of
        None \<Rightarrow> None
      | Some d \<Rightarrow>
          if \<not> passes_filters filters d then None
          else Some \<lparr>doc = d, score = hit_score result, matchData = hit_matchData result\<rparr>)"

definition hasEmbeddings :: "KnowledgeBase \<Rightarrow> bool" where
  "hasEmbeddings kb =
     (case embeddingsLite (index kb) of None \<Rightarrow> False | Some emb \<Rightarrow> 0 < length emb)"

definition cosineSimilarity :: "real list \<Rightarrow> real list \<Rightarrow> real" where
  "cosineSimilarity a b =
     (if length a \<noteq> length b then 0
      else
        let dotProduct = sum_list (map (\<lambda>(x, y). x * y) (zip a b));
            normA = sum_list (map (\<lambda>x. x * x) a);
            normB = sum_list (map (\<lambda>y. y * y) b);
            denominator = sqrt normA * sqrt normB
        in if denominator = 0 then 0 else dotProduct / denominator)"

text \<open>
  The embedding model is a collaborator: a text gives a vector, or the pipeline throws
  (\<open>None\<close>). Query time and build time cut the text at the same 512 characters.
\<close>

type_synonym embedder = "string \<Rightarrow> real list option"

definition generateQueryEmbedding :: "embedder \<Rightarrow> string \<Rightarrow> real list option" where
  "generateQueryEmbedding pipe query = pipe (if 512 < length query then take 512 query else query)"

definition generateEmbedding :: "embedder \<Rightarrow> string \<Rightarrow> real list option" where
  "generateEmbedding pipe text = pipe (if 512 < length text then take 512 text else text)"

text \<open>
  The result loop of \<open>semanticSearch\<close>: candidates are taken in order, one whose document
  is missing or filtered out is skipped, and the loop stops once \<open>limit\<close> results are held.
\<close>

fun collect_results ::
  "KnowledgeBase \<Rightarrow> SearchFilters option \<Rightarrow> nat \<Rightarrow> (string \<times> real) list \<Rightarrow> SearchResult list
     \<Rightarrow> SearchResult list" where
  "collect_results kb filters limit [] results = results"
| "collect_results kb filters limit ((docId, s) # rest) results =
     (case find (\<lambda>d. doc_id d = docId) (docs kb) of
        None \<Rightarrow> collect_results kb filters limit rest results
      | Some d \<Rightarrow>
          if \<not> passes_filters filters d then collect_results kb filters limit rest results
          else
            let results' = results @ [\<lparr>doc = d, score = s, matchData = None\<rparr>] in
            if limit \<le> length results' then results'
            else collect_results kb filters limit rest results')"

text \<open>
  \<open>similarities.sort((a, b) => b.score - a.score)\<close>: the platform's sort is stable, so
  equal scores keep the order of the scan.
\<close>

definition sort_similarities :: "(string \<times> real) list \<Rightarrow> (string \<times> real) list" where
  "sort_similarities xs = sort_key (\<lambda>p. - snd p) xs"

definition similarities_of :: "real list \<Rightarrow> (string \<times> real list) list \<Rightarrow> (string \<times> real) list" where
  "similarities_of queryEmbedding embeddings =
     filter (\<lambda>p. 0 < snd p) (map (\<lambda>(docId, v). (docId, cosineSimilarity queryEmbedding v)) embeddings)"

text \<open>
  \<open>semanticSearch\<close>: \<open>Inl\<close> is the error thrown when there are no embeddings; every failure
  inside the \<open>try\<close> block (the model failing to load or to run) is caught and gives the
  empty list.
\<close>

definition semanticSearch ::
  "embedder \<Rightarrow> string \<Rightarrow> KnowledgeBase \<Rightarrow> SearchFilters option \<Rightarrow> nat \<Rightarrow> search_error + SearchResult list" where
  "semanticSearch pipe query kb filters limit =
     (case embeddingsLite (index kb) of
        None \<Rightarrow> Inl EmbeddingsRequired
      | Some embeddings \<Rightarrow>
          if \<not> hasEmbeddings kb then Inl EmbeddingsRequired
          else
            (case generateQueryEmbedding pipe query of
               None \<Rightarrow> Inr []
             | Some queryEmbedding \<Rightarrow>
                 let similarities = sort_similarities (similarities_of queryEmbedding embeddings)
                 in Inr (collect_results kb filters limit (take (limit * 2) similarities) [])))"

text \<open>
  The \<open>Map\<close> of the hybrid branch, in insertion order. An id already present has its
  score replaced in place; a new id is appended with the weighted score.
\<close>

type_synonym combined_map = "(string \<times> SearchResult) list"

fun set_score :: "string \<Rightarrow> real \<Rightarrow> combined_map \<Rightarrow> combined_map" where
  "set_score k v [] = []"
| "set_score k v ((k', r) # rest) =
     (if k' = k then (k', r\<lparr>score := v\<rparr>) # rest else (k', r) # set_score k v rest)"

definition add_keyword :: "combined_map \<Rightarrow> SearchResult \<Rightarrow> combined_map" where
  "add_keyword combined result =
     (case map_of combined (doc_id (doc result)) of
        Some existing \<Rightarrow>
          set_score (doc_id (doc result)) ((score existing + score result * 0.6) / 1.6) combined
      | None \<Rightarrow> combined @ [(doc_id (doc result), result\<lparr>score := score result * 0.6\<rparr>)])"

definition add_semantic :: "combined_map \<Rightarrow> SearchResult \<Rightarrow> combined_map" where
  "add_semantic combined result =
     (case map_of combined (doc_id (doc result)) of
        Some existing \<Rightarrow>
          set_score (doc_id (doc result)) ((score existing + score result * 0.4) / 1.4) combined
      | None \<Rightarrow> combined @ [(doc_id (doc result), result\<lparr>score := score result * 0.4\<rparr>)])"

definition combine_hybrid :: "SearchResult list \<Rightarrow> SearchResult list \<Rightarrow> combined_map" where
  "combine_hybrid keywordSearchResults semanticResults =
     foldl add_semantic (foldl add_keyword [] keywordSearchResults) semanticResults"

definition sort_by_score :: "SearchResult list \<Rightarrow> SearchResult list" where
  "sort_by_score rs = sort_key (\<lambda>r. - score r) rs"

text \<open>
  The body of \<open>search\<close> after the index has been initialised (lines 51 to 169 of the
  engine). \<open>limit\<close> is a count.
\<close>

definition search_loaded ::
  "embedder \<Rightarrow> lunr_index \<Rightarrow> KnowledgeBase \<Rightarrow> string \<Rightarrow> SearchFilters option \<Rightarrow> nat \<Rightarrow> SearchMode
     \<Rightarrow> search_error + SearchResult list" where
  "search_loaded pipe searchIndex kb query filters limit mode =
     (let trimmedQuery = trim query in
      if trimmedQuery = [] then Inr []
      else
        let words = tokens trimmedQuery in
        if length words < 2 then Inl MinWords
        else
          (case searchIndex trimmedQuery of
             Inl msg \<Rightarrow> Inl (QueryParseError msg)
           | Inr keywordResults \<Rightarrow>
               let mappedResults = map (map_hit kb filters) (take (limit * 3) keywordResults);
                   keywordSearchResults = take (limit * 2) (List.map_filter (\<lambda>r. r) mappedResults);
                   semantic =
                     (if mode = Semantic \<or> mode = Hybrid then
                        if \<not> hasEmbeddings kb then
                          (if mode = Semantic then Inl EmbeddingsRequired else Inr [])
                        else
                          (case semanticSearch pipe trimmedQuery kb filters limit of
                             Inl e \<Rightarrow> if mode = Semantic then Inl e else Inr []
                           | Inr rs \<Rightarrow> Inr rs)
                      else Inr [])
               in
               (case semantic of
                  Inl e \<Rightarrow> Inl e
                | Inr semanticResults \<Rightarrow>
                    if mode = Keyword then Inr (take limit keywordSearchResults)
                    else if mode = Semantic then Inr (take limit semanticResults)
                    else Inr (take limit (sort_by_score
                                (map snd (combine_hybrid keywordSearchResults semanticResults)))))))"

section \<open>Loading and caching the artifact (kb-loader.ts, search-engine.ts)\<close>

text \<open>
  What \<open>response.json()\<close> delivers is untyped: each of the three parts may be missing,
  which is what the loader's basic validation tests.
\<close>

record RawKB =
  raw_meta :: "KBMeta option"
  raw_docs :: "KBDocument list option"
  raw_index :: "KBIndex option"

text \<open>
  A request for one of the two encodings: the fetch is rejected or not ok, the body is
  not JSON (or not an object), or a parsed object arrives.
\<close>

datatype response = NotOk | BadJson | Json RawKB

text \<open>
  The collaborators of the engine: the server's answers for the two paths, the text
  index library (\<open>JSON.parse\<close> and \<open>lunr.Index.load\<close> of the serialized index, \<open>None\<close>
  when they throw) and the embedding pipeline.
\<close>

record collaborators =
  fetch_min :: response
  fetch_full :: response
  Index_load :: "string \<Rightarrow> lunr_index option"
  pipe :: embedder

datatype event = Fetch string | ParseJson string | LoadIndex

text \<open>
  The module-level variables \<open>cachedKB\<close> (loader), \<open>searchIndex\<close> and \<open>kbData\<close> (engine),
  and a log of the requests, body parses and index loads performed so far.
\<close>

record engine =
  cachedKB :: "RawKB option"
  searchIndex :: "lunr_index option"
  kbData :: "RawKB option"
  events :: "event list"

definition initial_engine :: engine where
  "initial_engine = \<lparr>cachedKB = None, searchIndex = None, kbData = None, events = []\<rparr>"

definition KB_PATH :: string where
  "KB_PATH = ''/kb.json''"

definition KB_MIN_PATH :: string where
  "KB_MIN_PATH = ''/kb.min.json''"

definition structure_ok :: "RawKB \<Rightarrow> bool" where
  "structure_ok data = (raw_meta data \<noteq> None \<and> raw_docs data \<noteq> None \<and> raw_index data \<noteq> None)"

text \<open>
  One \<open>try\<close> block of \<open>loadKB\<close>: fetch, parse, assign \<open>cachedKB\<close>, validate. \<open>None\<close> means
  the block threw; the assignment made before the validation stays.
\<close>

definition try_load :: "string \<Rightarrow> response \<Rightarrow> engine \<Rightarrow> RawKB option \<times> engine" where
  "try_load p resp s =
     (case resp of
        NotOk \<Rightarrow> (None, s\<lparr>events := events s @ [Fetch p]\<rparr>)
      | BadJson \<Rightarrow> (None, s\<lparr>events := events s @ [Fetch p, ParseJson p]\<rparr>)
      | Json data \<Rightarrow>
          let s' = s\<lparr>cachedKB := Some data, events := events s @ [Fetch p, ParseJson p]\<rparr> in
          if \<not> structure_ok data then (None, s') else (Some data, s'))"

definition loadKB :: "collaborators \<Rightarrow> engine \<Rightarrow> (search_error + RawKB) \<times> engine" where
  "loadKB env s =
     (case cachedKB s of
        Some kb \<Rightarrow> (Inr kb, s)
      | None \<Rightarrow>
          (case try_load KB_MIN_PATH (fetch_min env) s of
             (Some kb, s1) \<Rightarrow> (Inr kb, s1)
           | (None, s1) \<Rightarrow>
               (case try_load KB_PATH (fetch_full env) s1 of
                  (Some kb, s2) \<Rightarrow> (Inr kb, s2)
                | (None, s2) \<Rightarrow> (Inl LoadFailed, s2))))"

definition clearKBCache :: "engine \<Rightarrow> engine" where
  "clearKBCache s = s\<lparr>cachedKB := None\<rparr>"

text \<open>
  The part of \<open>initializeIndex\<close> after \<open>loadKB\<close> has delivered: \<open>kbData\<close> is assigned, then
  the serialized index is parsed and loaded. Reading the index of an object without one
  throws, as a failed parse does.
\<close>

definition finish_initialize :: "collaborators \<Rightarrow> RawKB \<Rightarrow> engine \<Rightarrow> (search_error + unit) \<times> engine" where
  "finish_initialize env kb s =
     (let s1 = s\<lparr>kbData := Some kb\<rparr> in
      case raw_index kb of
        None \<Rightarrow> (Inl MalformedArtifact, s1)
      | Some ix \<Rightarrow>
          (case Index_load env (lunrIndex ix) of
             None \<Rightarrow> (Inl MalformedArtifact, s1\<lparr>events := events s1 @ [LoadIndex]\<rparr>)
           | Some idx \<Rightarrow> (Inr (), s1\<lparr>searchIndex := Some idx, events := events s1 @ [LoadIndex]\<rparr>)))"

definition initializeIndex :: "collaborators \<Rightarrow> engine \<Rightarrow> (search_error + unit) \<times> engine" where
  "initializeIndex env s =
     (if searchIndex s \<noteq> None \<and> kbData s \<noteq> None then (Inr (), s)
      else
        (case loadKB env s of
           (Inl e, s1) \<Rightarrow> (Inl e, s1)
         | (Inr kb, s1) \<Rightarrow> finish_initialize env kb s1))"

definition structured :: "RawKB \<Rightarrow> KnowledgeBase option" where
  "structured data =
     (case (raw_meta data, raw_docs data, raw_index data) of
        (Some m, Some ds, Some ix) \<Rightarrow> Some \<lparr>meta = m, docs = ds, index = ix\<rparr>
      | _ \<Rightarrow> None)"

definition raw_of :: "KnowledgeBase \<Rightarrow> RawKB" where
  "raw_of kb = \<lparr>raw_meta = Some (meta kb), raw_docs = Some (docs kb), raw_index = Some (index kb)\<rparr>"

text \<open>
  \<open>search\<close>, one call run to completion on its own. On a cached object that lacks one of
  the three parts the source goes on until it reads the missing part; the model reports
  that case as \<open>MalformedArtifact\<close> without following it further.
\<close>

definition search ::
  "collaborators \<Rightarrow> engine \<Rightarrow> string \<Rightarrow> SearchFilters option \<Rightarrow> nat \<Rightarrow> SearchMode
     \<Rightarrow> (search_error + SearchResult list) \<times> engine" where
  "search env s query filters limit mode =
     (case initializeIndex env s of
        (Inl e, s') \<Rightarrow> (Inl e, s')
      | (Inr u, s') \<Rightarrow>
          (case (searchIndex s', kbData s') of
             (Some idx, Some data) \<Rightarrow>
               (case structured data of
                  None \<Rightarrow> (Inl MalformedArtifact, s')
                | Some kb \<Rightarrow> (search_loaded (pipe env) idx kb query filters limit mode, s'))
           | _ \<Rightarrow> (Inl NotInitialized, s')))"

definition getKBMeta :: "collaborators \<Rightarrow> engine \<Rightarrow> (search_error + KBMeta option) \<times> engine" where
  "getKBMeta env s =
     (case initializeIndex env s of
        (Inl e, s') \<Rightarrow> (Inl e, s')
      | (Inr u, s') \<Rightarrow>
          (case kbData s' of None \<Rightarrow> (Inr None, s') | Some data \<Rightarrow> (Inr (raw_meta data), s')))"

text \<open>The engine once a well-formed artifact and its index are in place.\<close>

definition loaded_engine :: "lunr_index \<Rightarrow> KnowledgeBase \<Rightarrow> event list \<Rightarrow> engine" where
  "loaded_engine idx kb l =
     \<lparr>cachedKB = Some (raw_of kb), searchIndex = Some idx, kbData = Some (raw_of kb), events = l\<rparr>"

subsection \<open>Calls that overlap\<close>

text \<open>
  An \<open>async\<close> function runs until its next \<open>await\<close> and then yields to the other pending
  calls. A call of \<open>initializeIndex\<close> is therefore a task with a program point: where it
  is suspended. The request is issued when the task reaches \<open>fetch\<close>.
\<close>

datatype pc =
    Start
  | AwaitFetchMin
  | AwaitJsonMin
  | AwaitFetchFull
  | AwaitJsonFull
  | AwaitLoadKB "search_error + RawKB"
  | Finished "search_error + unit"

definition start_fallback :: "engine \<Rightarrow> pc \<times> engine" where
  "start_fallback s = (AwaitFetchFull, s\<lparr>events := events s @ [Fetch KB_PATH]\<rparr>)"

fun advance :: "collaborators \<Rightarrow> pc \<Rightarrow> engine \<Rightarrow> pc \<times> engine" where
  "advance env Start s =
     (if searchIndex s \<noteq> None \<and> kbData s \<noteq> None then (Finished (Inr ()), s)
      else
        (case cachedKB s of
           Some kb \<Rightarrow> (AwaitLoadKB (Inr kb), s)
         | None \<Rightarrow> (AwaitFetchMin, s\<lparr>events := events s @ [Fetch KB_MIN_PATH]\<rparr>)))"
| "advance env AwaitFetchMin s =
     (case fetch_min env of
        NotOk \<Rightarrow> start_fallback s
      | _ \<Rightarrow> (AwaitJsonMin, s\<lparr>events := events s @ [ParseJson KB_MIN_PATH]\<rparr>))"
| "advance env AwaitJsonMin s =
     (case fetch_min env of
        Json data \<Rightarrow>
          let s' = s\<lparr>cachedKB := Some data\<rparr> in
          if \<not> structure_ok data then start_fallback s' else (AwaitLoadKB (Inr data), s')
      | _ \<Rightarrow> start_fallback s)"
| "advance env AwaitFetchFull s =
     (case fetch_full env of
        NotOk \<Rightarrow> (AwaitLoadKB (Inl LoadFailed), s)
      | _ \<Rightarrow> (AwaitJsonFull, s\<lparr>events := events s @ [ParseJson KB_PATH]\<rparr>))"
| "advance env AwaitJsonFull s =
     (case fetch_full env of
        Json data \<Rightarrow>
          let s' = s\<lparr>cachedKB := Some data\<rparr> in
          if \<not> structure_ok data then (AwaitLoadKB (Inl LoadFailed), s')
          else (AwaitLoadKB (Inr data), s')
      | _ \<Rightarrow> (AwaitLoadKB (Inl LoadFailed), s))"
| "advance env (AwaitLoadKB r) s =
     (case r of
        Inl e \<Rightarrow> (Finished (Inl e), s)
      | Inr kb \<Rightarrow> (case finish_initialize env kb s of (res, s') \<Rightarrow> (Finished res, s')))"
| "advance env (Finished r) s = (Finished r, s)"

text \<open>
  A schedule names, step by step, the pending call that runs next; the calls share the
  module variables.
\<close>

fun run_schedule :: "collaborators \<Rightarrow> nat list \<Rightarrow> pc list \<times> engine \<Rightarrow> pc list \<times> engine" where
  "run_schedule env [] st = st"
| "run_schedule env (i # sched) (pcs, s) =
     (if i < length pcs
      then (case advance env (pcs ! i) s of (p', s') \<Rightarrow> run_schedule env sched (pcs[i := p'], s'))
      else run_schedule env sched (pcs, s))"

definition count_event :: "event \<Rightarrow> engine \<Rightarrow> nat" where
  "count_event e s = length (filter (\<lambda>x. x = e) (events s))"

section \<open>Regular expressions of the sources\<close>

text \<open>
  The patterns of the sources use character classes, sequence, optional parts, greedy
  and lazy repetition and the end anchor. A match is computed as the platform's
  backtracking matcher computes it: \<open>ms r s\<close> lists, in the matcher's order of preference,
  what is left of \<open>s\<close> after each way of matching \<open>r\<close> at its start; the first entry is the
  match the platform reports. An iteration of a repetition that consumes nothing is
  rejected.
\<close>

datatype regex =
    Cls "char \<Rightarrow> bool"
  | Eps
  | Eol
  | Seq regex regex
  | Opt regex
  | Star regex
  | LazyStar regex
  | Rep nat "nat option" regex

fun star_iter :: "(string \<Rightarrow> string list) \<Rightarrow> nat \<Rightarrow> string \<Rightarrow> string list" where
  "star_iter f 0 s = [s]"
| "star_iter f (Suc k) s =
     concat (map (star_iter f k) (filter (\<lambda>s'. length s' < length s) (f s))) @ [s]"

fun lazy_iter :: "(string \<Rightarrow> string list) \<Rightarrow> nat \<Rightarrow> string \<Rightarrow> string list" where
  "lazy_iter f 0 s = [s]"
| "lazy_iter f (Suc k) s =
     s # concat (map (lazy_iter f k) (filter (\<lambda>s'. length s' < length s) (f s)))"

fun times_iter :: "(string \<Rightarrow> string list) \<Rightarrow> nat \<Rightarrow> string \<Rightarrow> string list" where
  "times_iter f 0 s = [s]"
| "times_iter f (Suc n) s = concat (map (times_iter f n) (f s))"

fun ms :: "regex \<Rightarrow> string \<Rightarrow> string list" where
  "ms (Cls p) s = (case s of [] \<Rightarrow> [] | c # cs \<Rightarrow> if p c then [cs] else [])"
| "ms Eps s = [s]"
| "ms Eol s = (if s = [] then [s] else [])"
| "ms (Seq a b) s = concat (map (ms b) (ms a s))"
| "ms (Opt a) s = ms a s @ [s]"
| "ms (Star a) s = star_iter (ms a) (length s) s"
| "ms (LazyStar a) s = lazy_iter (ms a) (length s) s"
| "ms (Rep n None a) s = concat (map (\<lambda>s'. star_iter (ms a) (length s') s') (times_iter (ms a) n s))"
| "ms (Rep n (Some m) a) s = concat (map (star_iter (ms a) (m - n)) (times_iter (ms a) n s))"

text \<open>\<open>exec\<close> at the start of \<open>s\<close>: the rest after the preferred match, if there is a match.\<close>

definition match_here :: "regex \<Rightarrow> string \<Rightarrow> string option" where
  "match_here r s = (case ms r s of [] \<Rightarrow> None | rest # _ \<Rightarrow> Some rest)"

text \<open>A literal, and a literal under the flag \<open>i\<close>.\<close>

fun lit :: "string \<Rightarrow> regex" where
  "lit [] = Eps"
| "lit (c # cs) = Seq (Cls (\<lambda>x. x = c)) (lit cs)"

fun lit_ci :: "string \<Rightarrow> regex" where
  "lit_ci [] = Eps"
| "lit_ci (c # cs) = Seq (Cls (\<lambda>x. lower_char x = lower_char c)) (lit_ci cs)"

definition Plus :: "regex \<Rightarrow> regex" where
  "Plus r = Rep 1 None r"

text \<open>
  A global scan (\<open>String.prototype.match\<close> and \<open>replace\<close> with the flag \<open>g\<close>): matches are
  looked for from left to right, each search resuming where the previous match ended,
  one character further after an empty match.
\<close>

function replace_all :: "regex \<Rightarrow> string \<Rightarrow> string \<Rightarrow> string" where
  "replace_all r rep [] = (case match_here r [] of None \<Rightarrow> [] | Some rest \<Rightarrow> rep)"
| "replace_all r rep (c # cs) =
     (case match_here r (c # cs) of
        None \<Rightarrow> c # replace_all r rep cs
      | Some rest \<Rightarrow>
          if length rest < length (c # cs) then rep @ replace_all r rep rest
          else rep @ c # replace_all r rep cs)"
  by pat_completeness auto
termination
  by (relation "measure (\<lambda>(r, rep, s). length s)") auto

function match_all :: "regex \<Rightarrow> string \<Rightarrow> string list" where
  "match_all r [] = (case match_here r [] of None \<Rightarrow> [] | Some rest \<Rightarrow> [[]])"
| "match_all r (c # cs) =
     (case match_here r (c # cs) of
        None \<Rightarrow> match_all r cs
      | Some rest \<Rightarrow>
          if length rest < length (c # cs)
          then take (length (c # cs) - length rest) (c # cs) # match_all r rest
          else [] # match_all r cs)"
  by pat_completeness auto
termination
  by (relation "measure (\<lambda>(r, s). length s)") auto

text \<open>Character classes.\<close>

definition is_digit :: "char \<Rightarrow> bool" where
  "is_digit c = (let n = (of_char c :: nat) in 48 \<le> n \<and> n \<le> 57)"

definition is_upper :: "char \<Rightarrow> bool" where
  "is_upper c = (let n = (of_char c :: nat) in 65 \<le> n \<and> n \<le> 90)"

definition is_lower :: "char \<Rightarrow> bool" where
  "is_lower c = (let n = (of_char c :: nat) in 97 \<le> n \<and> n \<le> 122)"

definition is_alnum :: "char \<Rightarrow> bool" where
  "is_alnum c = (is_lower c \<or> is_upper c \<or> is_digit c)"

text \<open>\<open>\w\<close>\<close>

definition is_word :: "char \<Rightarrow> bool" where
  "is_word c = (is_alnum c \<or> c = CHR ''_'')"

text \<open>\<open>.\<close>: any character but a line terminator.\<close>

definition is_dot :: "char \<Rightarrow> bool" where
  "is_dot c = (of_char c \<notin> set [10, 13 :: nat])"

section \<open>The redactor (scripts/modules/secret-scan.ts)\<close>

definition REDACTION_MARKER :: string where
  "REDACTION_MARKER = ''[REDACTED]''"

text \<open>
  The table \<open>SECRET_PATTERNS\<close>. Under the flag \<open>i\<close> a class of capitals and digits also
  accepts the small letters.
\<close>

fun seqs :: "regex list \<Rightarrow> regex" where
  "seqs [] = Eps"
| "seqs [r] = r"
| "seqs (r # rs) = Seq r (seqs rs)"

definition is_quote :: "char \<Rightarrow> bool" where
  "is_quote c = (c = CHR 0x22 \<or> c = CHR 0x27)"

definition is_token_char :: "char \<Rightarrow> bool" where
  "is_token_char c = (is_word c \<or> c = CHR ''-'')"

definition PRIVATE_KEY_WORDS :: regex where
  "PRIVATE_KEY_WORDS =
     seqs [Plus (Cls is_ws), Opt (seqs [lit ''RSA'', Plus (Cls is_ws)]), lit ''PRIVATE KEY-----'']"

definition SECRET_PATTERNS :: "(regex \<times> string) list" where
  "SECRET_PATTERNS =
     [(seqs [lit ''ghp_'', Rep 36 (Some 36) (Cls is_alnum)], ''GitHub Personal Access Token''),
      (seqs [lit ''github_pat_'', Rep 82 (Some 82) (Cls is_word)], ''GitHub Fine-grained Token''),
      (seqs [lit ''AKIA'', Rep 16 (Some 16) (Cls (\<lambda>c. is_digit c \<or> is_upper c))],
       ''AWS Access Key ID''),
      (seqs [lit_ci ''aws_access_key_id'', Star (Cls is_ws), lit ''='', Star (Cls is_ws),
             Rep 20 (Some 20) (Cls is_alnum)],
       ''AWS Access Key''),
      (seqs [lit_ci ''aws_secret_access_key'', Star (Cls is_ws), lit ''='', Star (Cls is_ws),
             Rep 40 (Some 40) (Cls (\<lambda>c. is_alnum c \<or> c \<in> set ''/+=''))],
       ''AWS Secret Key''),
      (seqs [lit ''eyJ'', Plus (Cls is_token_char), lit ''.eyJ'', Plus (Cls is_token_char),
             lit ''.'', Plus (Cls is_token_char)],
       ''JWT Token''),
      (seqs [lit ''-----BEGIN'', PRIVATE_KEY_WORDS, LazyStar (Cls (\<lambda>c. True)),
             lit ''-----END'', PRIVATE_KEY_WORDS],
       ''Private Key''),
      (seqs [lit_ci ''password'', Star (Cls is_ws), Cls (\<lambda>c. c \<in> set '':=''), Star (Cls is_ws),
             Opt (Cls is_quote), Rep 8 None (Cls (\<lambda>c. \<not> is_ws c \<and> \<not> is_quote c)),
             Opt (Cls is_quote)],
       ''Password''),
      (seqs [lit_ci ''api'', Opt (Cls (\<lambda>c. c \<in> set ''_-'')), lit_ci ''key'', Star (Cls is_ws),
             Cls (\<lambda>c. c \<in> set '':=''), Star (Cls is_ws), Opt (Cls is_quote),
             Rep 20 None (Cls is_token_char), Opt (Cls is_quote)],
       ''API Key'')]"

record finding =
  secret_type :: string
  count :: nat

record SecretScanResult =
  hasSecrets :: bool
  redactedContent :: string
  secretsFound :: "finding list"

text \<open>
  \<open>calculateEntropy\<close>: the frequency table has one entry for each distinct character;
  the running value is decreased by \<open>p * log2 p\<close> for each entry.
\<close>

definition calculateEntropy :: "string \<Rightarrow> real" where
  "calculateEntropy str =
     foldl (\<lambda>entropy c.
              let p = real (count_list str c) / real (length str) in entropy - p * log 2 p)
       0 (remdups str)"

definition isHighEntropySecret :: "string \<Rightarrow> bool" where
  "isHighEntropySecret str = (if length str < 16 then False else 3.5 < calculateEntropy str)"

text \<open>One turn of the loop over \<open>SECRET_PATTERNS\<close>; the matches are those in \<open>content\<close>.\<close>

definition scan_pattern :: "string \<Rightarrow> SecretScanResult \<Rightarrow> regex \<times> string \<Rightarrow> SecretScanResult" where
  "scan_pattern content acc pn =
     (let matches = match_all (fst pn) content in
      if 0 < length matches
      then \<lparr>hasSecrets = True,
            redactedContent = replace_all (fst pn) REDACTION_MARKER (redactedContent acc),
            secretsFound = secretsFound acc @ [\<lparr>secret_type = snd pn, count = length matches\<rparr>]\<rparr>
      else acc)"

fun bump_finding :: "string \<Rightarrow> finding list \<Rightarrow> finding list" where
  "bump_finding t [] = []"
| "bump_finding t (f # fs) =
     (if secret_type f = t then f\<lparr>count := count f + 1\<rparr> # fs else f # bump_finding t fs)"

text \<open>
  One turn of the loop over the words: the word stripped of everything but letters and
  digits is tested, and the stripped form is what is replaced.
\<close>

definition scan_word :: "SecretScanResult \<Rightarrow> string \<Rightarrow> SecretScanResult" where
  "scan_word acc w =
     (let cleaned = filter is_alnum w in
      if isHighEntropySecret cleaned \<and> 16 \<le> length cleaned
      then
        let found = (if find (\<lambda>f. secret_type f = ''High-entropy string'') (secretsFound acc) = None
                     then secretsFound acc @ [\<lparr>secret_type = ''High-entropy string'', count = 0\<rparr>]
                     else secretsFound acc)
        in \<lparr>hasSecrets = True,
            redactedContent = replace_all (lit cleaned) REDACTION_MARKER (redactedContent acc),
            secretsFound = bump_finding ''High-entropy string'' found\<rparr>
      else acc)"

definition scan_patterns :: "string \<Rightarrow> SecretScanResult" where
  "scan_patterns content =
     foldl (scan_pattern content)
       \<lparr>hasSecrets = False, redactedContent = content, secretsFound = []\<rparr> SECRET_PATTERNS"

definition scanAndRedact :: "string \<Rightarrow> SecretScanResult" where
  "scanAndRedact content = foldl scan_word (scan_patterns content) (split_ws content)"

section \<open>The chunker (scripts/modules/chunking.ts)\<close>

definition MAX_CHUNK_SIZE :: nat where
  "MAX_CHUNK_SIZE = 3000"

definition MIN_CHUNK_SIZE :: nat where
  "MIN_CHUNK_SIZE = 100"

record ChunkingOptions =
  maxChunkSize :: "nat option"
  minChunkSize :: "nat option"

text \<open>\<open>options.maxChunkSize || MAX_CHUNK_SIZE\<close>: an absent or zero option gives the default.\<close>

definition max_size :: "ChunkingOptions \<Rightarrow> nat" where
  "max_size options =
     (case maxChunkSize options of None \<Rightarrow> MAX_CHUNK_SIZE | Some n \<Rightarrow> if n = 0 then MAX_CHUNK_SIZE else n)"

definition min_size :: "ChunkingOptions \<Rightarrow> nat" where
  "min_size options =
     (case minChunkSize options of None \<Rightarrow> MIN_CHUNK_SIZE | Some n \<Rightarrow> if n = 0 then MIN_CHUNK_SIZE else n)"

definition newline :: char where
  "newline = CHR 0x0A"

text \<open>\<open>lines.join('\n')\<close>\<close>

fun join_lines :: "string list \<Rightarrow> string" where
  "join_lines [] = []"
| "join_lines [l] = l"
| "join_lines (l # ls) = l @ newline # join_lines ls"

text \<open>\<open>xs.lastIndexOf(x)\<close>, with -1 when \<open>x\<close> does not occur.\<close>

definition lastIndexOf :: "'a list \<Rightarrow> 'a \<Rightarrow> int" where
  "lastIndexOf xs x =
     (if x \<in> set xs then int (length xs - 1 - length (takeWhile (\<lambda>y. y \<noteq> x) (rev xs))) else - 1)"

text \<open>\<open>hay.indexOf(needle)\<close>: the first position where \<open>needle\<close> starts, or -1.\<close>

fun index_from :: "string \<Rightarrow> string \<Rightarrow> nat \<Rightarrow> int" where
  "index_from needle [] k = (if needle = [] then int k else - 1)"
| "index_from needle (c # cs) k =
     (if take (length needle) (c # cs) = needle then int k else index_from needle cs (Suc k))"

definition indexOf :: "string \<Rightarrow> string \<Rightarrow> int" where
  "indexOf hay needle = index_from needle hay 0"

text \<open>\<open>/^(#+)\s+(.+)$/\<close>, tried on one line.\<close>

definition HEADING :: regex where
  "HEADING = seqs [Plus (Cls (\<lambda>c. c = CHR ''#'')), Plus (Cls is_ws), Plus (Cls is_dot), Eol]"

definition is_heading :: "string \<Rightarrow> bool" where
  "is_heading line = (match_here HEADING line \<noteq> None)"

text \<open>One turn of the loop of \<open>chunkMarkdown\<close> on the pair \<open>(chunks, currentChunk)\<close>.\<close>

definition markdown_step ::
  "ChunkingOptions \<Rightarrow> string list \<times> string list \<Rightarrow> string \<Rightarrow> string list \<times> string list" where
  "markdown_step options st line =
     (let chunks = fst st; currentChunk = snd st in
      if is_heading line then
        (if 0 < length currentChunk then
           let chunkText = join_lines currentChunk in
           (if min_size options \<le> length chunkText then chunks @ [chunkText] else chunks, [line])
         else (chunks, [line]))
      else
        let currentChunk' = currentChunk @ [line];
            chunkText = join_lines currentChunk'
        in
        if max_size options < length chunkText then
          let lastPara = lastIndexOf currentChunk' [] in
          if 0 < lastPara then
            (chunks @ [join_lines (take (nat lastPara) currentChunk')], drop (nat lastPara) currentChunk')
          else
            (chunks @ [take (max_size options) chunkText], [drop (max_size options) chunkText])
        else (chunks, currentChunk'))"

definition chunkMarkdown :: "string \<Rightarrow> ChunkingOptions \<Rightarrow> string list" where
  "chunkMarkdown content options =
     (let st = foldl (markdown_step options) ([], []) (split_on newline content);
          chunks = fst st; currentChunk = snd st;
          chunks' =
            (if 0 < length currentChunk \<and> min_size options \<le> length (join_lines currentChunk)
             then chunks @ [join_lines currentChunk] else chunks)
      in if 0 < length chunks' then chunks' else [content])"

text \<open>The three tests of \<open>chunkCode\<close> for the start of a declaration, on the trimmed line.\<close>

definition EXPORT_PREFIX :: regex where
  "EXPORT_PREFIX = Opt (seqs [lit ''export'', Plus (Cls is_ws)])"

definition ASYNC_PREFIX :: regex where
  "ASYNC_PREFIX = Opt (seqs [lit ''async'', Plus (Cls is_ws)])"

definition FUNCTION_START :: regex where
  "FUNCTION_START =
     seqs [EXPORT_PREFIX, ASYNC_PREFIX, lit ''function'', Plus (Cls is_ws), Plus (Cls is_word)]"

definition CLASS_START :: regex where
  "CLASS_START = seqs [EXPORT_PREFIX, lit ''class'', Plus (Cls is_ws), Plus (Cls is_word)]"

definition CONST_START :: regex where
  "CONST_START =
     seqs [EXPORT_PREFIX, lit ''const'', Plus (Cls is_ws), Plus (Cls is_word), Star (Cls is_ws),
           lit ''='', Star (Cls is_ws), ASYNC_PREFIX, lit ''('']"

definition starts_declaration :: "string \<Rightarrow> bool" where
  "starts_declaration trimmed =
     (match_here FUNCTION_START trimmed \<noteq> None \<or> match_here CLASS_START trimmed \<noteq> None
      \<or> match_here CONST_START trimmed \<noteq> None)"

text \<open>
  One turn of the boundary loop of \<open>chunkCode\<close> on \<open>(boundaries, braceDepth, inFunction)\<close>,
  for line number \<open>i\<close>.
\<close>

definition code_step :: "nat list \<times> int \<times> bool \<Rightarrow> nat \<times> string \<Rightarrow> nat list \<times> int \<times> bool" where
  "code_step st il =
     (case st of (boundaries, braceDepth, inFunction) \<Rightarrow>
      case il of (i, line) \<Rightarrow>
        let trimmed = trim line;
            braceDepth' = braceDepth + int (count_list line CHR ''{'') - int (count_list line CHR ''}'');
            starts = starts_declaration trimmed;
            boundaries' =
              (if starts \<and> 0 < length boundaries \<and> last boundaries \<noteq> i
               then boundaries @ [i] else boundaries);
            inFunction' = (starts \<or> inFunction)
        in
        if inFunction' \<and> braceDepth' = 0 \<and> CHR ''}'' \<in> set trimmed
        then (boundaries' @ [i + 1], braceDepth', False)
        else (boundaries', braceDepth', inFunction'))"

text \<open>The chunks one pair of neighbouring boundaries contributes.\<close>

definition code_chunks_between :: "ChunkingOptions \<Rightarrow> string list \<Rightarrow> nat \<times> nat \<Rightarrow> string list" where
  "code_chunks_between options lines se =
     (let chunkLines = take (snd se - fst se) (drop (fst se) lines);
          chunkText = join_lines chunkLines
      in
      if max_size options < length chunkText
      then match_all (Rep 1 (Some (max_size options)) (Cls is_dot)) chunkText
      else if min_size options \<le> length chunkText then [chunkText]
      else [])"

definition chunkCode :: "string \<Rightarrow> string \<Rightarrow> ChunkingOptions \<Rightarrow> string list" where
  "chunkCode content lng options =
     (let lines = split_on newline content;
          boundaries = fst (foldl code_step ([0], 0, False) (zip [0..<length lines] lines))
                         @ [length lines];
          chunks = concat (map (code_chunks_between options lines) (zip boundaries (tl boundaries)))
      in if 0 < length chunks then chunks else [content])"

definition langMap :: "(string \<times> string) list" where
  "langMap =
     [(''.md'', ''markdown''), (''.txt'', ''text''), (''.ts'', ''typescript''),
      (''.tsx'', ''typescript''), (''.js'', ''javascript''), (''.jsx'', ''javascript''),
      (''.json'', ''json''), (''.yml'', ''yaml''), (''.yaml'', ''yaml''), (''.sql'', ''sql'')]"

text \<open>
  \<open>path.substring(path.lastIndexOf('.'))\<close>: a negative start is taken as 0, so a path
  without a dot is looked up whole. \<open>langMap\<close> is an object literal: for a path without a
  dot that is the name of a member of \<open>Object.prototype\<close> (\<open>constructor\<close>, \<open>toString\<close>,
  \<open>valueOf\<close> and the like) the lookup of the source finds that member, which is not a
  string and equals none of the language names; the model answers \<open>text\<close> there, under
  which \<open>chunkFile\<close> takes the same branch.
\<close>

definition getLanguageFromPath :: "string \<Rightarrow> string" where
  "getLanguageFromPath p =
     (case map_of langMap (drop (nat (lastIndexOf p CHR ''.'')) p) of
        Some l \<Rightarrow> l
      | None \<Rightarrow> ''text'')"

text \<open>
  The fallback of \<open>chunkFile\<close>: windows of \<open>maxSize\<close> characters. \<open>maxSize\<close> is never 0
  there.
\<close>

function windows :: "nat \<Rightarrow> string \<Rightarrow> string list" where
  "windows n s = (if s = [] \<or> n = 0 then [] else take n s # windows n (drop n s))"
  by pat_completeness auto
termination
  by (relation "measure (\<lambda>(n, s). length s)") auto

declare windows.simps [simp del]

text \<open>
  The title and the digest of a chunk are computed by \<open>extractTitle\<close> and by the
  platform's SHA-256; they are parameters here.
\<close>

record chunk_helpers =
  extractTitle :: "string \<Rightarrow> string \<Rightarrow> string"
  generateHash :: "string \<Rightarrow> string"

text \<open>
  One turn of the loop of \<open>chunkFile\<close> that turns chunk number \<open>i\<close> into a document, on
  the pair \<open>(documents, lineOffset)\<close>.
\<close>

definition doc_step ::
  "chunk_helpers \<Rightarrow> string \<Rightarrow> string \<Rightarrow> string \<Rightarrow> string \<Rightarrow> ChunkingOptions
     \<Rightarrow> KBDocument list \<times> nat \<Rightarrow> nat \<times> string \<Rightarrow> KBDocument list \<times> nat" where
  "doc_step h content rp relativePath lng options st ic =
     (case st of (documents, lineOffset) \<Rightarrow>
      case ic of (i, chunkContent) \<Rightarrow>
        if chunkContent = [] \<or> length (trim chunkContent) = 0 then (documents, lineOffset)
        else
          let lines = length (split_on newline (take (nat (indexOf content chunkContent)) content));
              chunkLines = split_on newline chunkContent;
              startLine' = lineOffset + lines;
              endLine' = startLine' + length chunkLines - 1;
              excerpt = trim (take (max_size options) chunkContent)
          in
          if excerpt = [] then (documents, lineOffset)
          else
            (documents @
               [\<lparr>doc_id = rp @ '':'' @ relativePath @ '':'' @ show_nat i,
                 repo = rp,
                 path = relativePath,
                 lang = lng,
                 loc = \<lparr>startLine = startLine', endLine = endLine'\<rparr>,
                 title = extractTitle h chunkContent lng,
                 contentExcerpt = excerpt,
                 tags = [],
                 hash = generateHash h chunkContent,
                 pullRequest = None\<rparr>],
             endLine'))"

definition chunks_of :: "string \<Rightarrow> string \<Rightarrow> ChunkingOptions \<Rightarrow> string list" where
  "chunks_of content lng options =
     (if lng = ''markdown'' \<or> lng = ''md'' then chunkMarkdown content options
      else if lng \<in> set [''typescript'', ''javascript'', ''ts'', ''js'', ''tsx'', ''jsx'']
      then chunkCode content lng options
      else windows (max_size options) content)"

text \<open>\<open>chunkFile\<close>, given the text read from the file.\<close>

definition chunkFile ::
  "chunk_helpers \<Rightarrow> string \<Rightarrow> string \<Rightarrow> string \<Rightarrow> ChunkingOptions \<Rightarrow> KBDocument list" where
  "chunkFile h content rp relativePath options =
     (let lng = getLanguageFromPath relativePath;
          chunks = chunks_of content lng options
      in fst (foldl (doc_step h content rp relativePath lng options) ([], 0)
                (zip [0..<length chunks] chunks)))"

section \<open>Example artifacts\<close>

text \<open>Small artifacts and collaborators on which the operations are run below.\<close>

definition example_doc :: "string \<Rightarrow> string \<Rightarrow> string \<Rightarrow> KBDocument" where
  "example_doc rp p lng =
     \<lparr>doc_id = rp @ '':'' @ p @ '':0'', repo = rp, path = p, lang = lng,
       loc = \<lparr>startLine = 1, endLine = 3\<rparr>, title = ''Notes'', contentExcerpt = ''alpha beta gamma'',
       tags = [], hash = ''0f3a'', pullRequest = None\<rparr>"

definition doc_a :: KBDocument where
  "doc_a = example_doc ''r'' ''a.md'' ''markdown''"

definition doc_b :: KBDocument where
  "doc_b = example_doc ''r'' ''b.md'' ''markdown''"

definition doc_c :: KBDocument where
  "doc_c = example_doc ''s'' ''c.md'' ''markdown''"

definition example_kb :: "KBDocument list \<Rightarrow> (string \<times> real list) list option \<Rightarrow> KnowledgeBase" where
  "example_kb ds emb =
     \<lparr>meta = \<lparr>generatedAt = ''2026-01-01T00:00:00.000Z'', sourceScope = ''public-only'',
              repoCount = 1, docCount = int (length ds), version = ''abc123'', prStats = None\<rparr>,
       docs = ds,
       index = \<lparr>lunrIndex = ''{}'', embeddingsLite = emb\<rparr>\<rparr>"

definition hit :: "KBDocument \<Rightarrow> real \<Rightarrow> lunr_result" where
  "hit d sc = \<lparr>ref = doc_id d, hit_score = sc, hit_matchData = None\<rparr>"

text \<open>A text index that answers every query with the given hits.\<close>

definition fixed_index :: "lunr_result list \<Rightarrow> lunr_index" where
  "fixed_index hits = (\<lambda>q. Inr hits)"

text \<open>An embedding pipeline that maps every text to the first unit vector of the plane.\<close>

definition unit_pipe :: embedder where
  "unit_pipe = (\<lambda>t. Some [1, 0])"

definition example_env :: collaborators where
  "example_env =
     \<lparr>fetch_min = Json (raw_of (example_kb [doc_a] None)),
       fetch_full = Json (raw_of (example_kb [doc_a] None)),
       Index_load = (\<lambda>blob. Some (fixed_index [hit doc_a 0.8])),
       pipe = unit_pipe\<rparr>"

text \<open>
  A stand-in for the platform, under which every artifact is two bytes long and a file
  name is the directory, a slash and the name.
\<close>

definition example_serializer :: serializer where
  "example_serializer =
     \<lparr>stringify = (\<lambda>kb. ''{}''), stringify_pretty = (\<lambda>kb. ''{ }''),
      join = (\<lambda>dir name. dir @ ''/'' @ name)\<rparr>"

text \<open>An artifact whose vector map has a key that is no document's id.\<close>

definition ghost_kb :: KnowledgeBase where
  "ghost_kb = example_kb [doc_a] (Some [(''r:deleted.md:0'', [1, 0])])"

definition a_kb :: KnowledgeBase where
  "a_kb = example_kb [doc_a] (Some [(doc_id doc_a, [0.6, 0.8])])"

definition abc_kb :: KnowledgeBase where
  "abc_kb = example_kb [doc_a, doc_b, doc_c]
     (Some [(doc_id doc_a, [1, 0]), (doc_id doc_b, [0.8, 0.6]), (doc_id doc_c, [0.6, 0.8])])"

definition repo_filter :: "string \<Rightarrow> SearchFilters" where
  "repo_filter rp =
     \<lparr>f_repo = Some rp, f_language = None, f_tag = None, f_prStatus = None, f_fileType = None\<rparr>"

section \<open>Notions used to state the properties of the engine\<close>

text \<open>
  What one candidate of the semantic scan becomes: nothing when its document is missing
  or filtered out, else a result without match data.
\<close>

definition to_result :: "KnowledgeBase \<Rightarrow> SearchFilters option \<Rightarrow> string \<times> real \<Rightarrow> SearchResult option" where
  "to_result kb filters p =
     (case find (\<lambda>d. doc_id d = fst p) (docs kb) of
        None \<Rightarrow> None
      | Some d \<Rightarrow>
          if passes_filters filters d then Some \<lparr>doc = d, score = snd p, matchData = None\<rparr> else None)"

text \<open>
  The semantic pipeline as the specification words it: all positive similarities are
  sorted, the filters are applied to all of them, and the filtered list is cut at
  \<open>limit\<close>.
\<close>

definition semantic_as_claimed ::
  "KnowledgeBase \<Rightarrow> SearchFilters option \<Rightarrow> nat \<Rightarrow> real list \<Rightarrow> SearchResult list" where
  "semantic_as_claimed kb filters limit v =
     (case embeddingsLite (index kb) of
        None \<Rightarrow> []
      | Some emb \<Rightarrow>
          take limit (List.map_filter (to_result kb filters)
            (sort_similarities (similarities_of v emb))))"

definition weighted :: "real \<Rightarrow> SearchResult \<Rightarrow> SearchResult" where
  "weighted w r = r\<lparr>score := score r * w\<rparr>"

text \<open>
  The contract of the text index's ranked query: the hits come by descending score and
  no document is hit twice.
\<close>

definition ranked :: "lunr_result list \<Rightarrow> bool" where
  "ranked hits = (sorted_wrt (\<lambda>a b. hit_score b \<le> hit_score a) hits \<and> distinct (map ref hits))"

section \<open>Notions used to state the properties of the chunker\<close>

text \<open>The bounds every excerpt keeps.\<close>

definition doc_ok :: "ChunkingOptions \<Rightarrow> KBDocument \<Rightarrow> bool" where
  "doc_ok options d = (contentExcerpt d \<noteq> [] \<and> length (contentExcerpt d) \<le> max_size options)"

text \<open>
  The invariant of the document loop of \<open>chunkFile\<close> before chunk number \<open>k\<close>: the ids are
  distinct and end in the numbers of earlier chunks, every range is well formed and ends
  at or before the line offset, and each range ends before the next one starts.
\<close>

definition lines_inv :: "string \<Rightarrow> nat \<Rightarrow> KBDocument list \<times> nat \<Rightarrow> bool" where
  "lines_inv pre k st =
     (distinct (map doc_id (fst st))
      \<and> (\<forall>d\<in>set (fst st). \<exists>j<k. doc_id d = pre @ show_nat j)
      \<and> (\<forall>d\<in>set (fst st). startLine (loc d) \<le> endLine (loc d) \<and> endLine (loc d) \<le> snd st)
      \<and> sorted_wrt (\<lambda>a b. endLine (loc a) < startLine (loc b)) (fst st))"

definition plain_helpers :: chunk_helpers where
  "plain_helpers =
     \<lparr>extractTitle = (\<lambda>c l. ''Untitled''), generateHash = (\<lambda>c. ''0000000000000000'')\<rparr>"

definition default_options :: ChunkingOptions where
  "default_options = \<lparr>maxChunkSize = None, minChunkSize = None\<rparr>"

text \<open>A text file of 3001 characters: a letter, 2999 spaces, a letter.\<close>

definition spaced_file :: string where
  "spaced_file = CHR ''a'' # replicate 2999 CHR '' '' @ ''b''"

text \<open>A text file of three lines.\<close>

definition three_lines :: string where
  "three_lines = ''ab'' @ [newline] @ ''cd'' @ [newline] @ ''ef''"

section \<open>Notions used to state the properties of the redactor\<close>

text \<open>The result of a scan that found nothing.\<close>

definition clean_scan :: "string \<Rightarrow> SecretScanResult" where
  "clean_scan content = \<lparr>hasSecrets = False, redactedContent = content, secretsFound = []\<rparr>"

text \<open>The text that \<open>scanAndRedact\<close> returns.\<close>

definition redact :: "string \<Rightarrow> string" where
  "redact content = redactedContent (scanAndRedact content)"

text \<open>The least number of characters that a match of an expression takes.\<close>

fun min_len :: "regex \<Rightarrow> nat" where
  "min_len (Cls p) = 1"
| "min_len Eps = 0"
| "min_len Eol = 0"
| "min_len (Seq a b) = min_len a + min_len b"
| "min_len (Opt a) = 0"
| "min_len (Star a) = 0"
| "min_len (LazyStar a) = 0"
| "min_len (Rep n m a) = n * min_len a"

text \<open>\<open>b\<close> is \<open>a\<close> itself or a shorter text.\<close>

definition shrinks :: "string \<Rightarrow> string \<Rightarrow> bool" where
  "shrinks a b = (length b \<le> length a \<and> (b \<noteq> a \<longrightarrow> length b < length a))"

text \<open>
  A text in which the key pattern matches and the password pattern does not, until the
  key has been replaced.
\<close>

definition leaking_text :: string where
  "leaking_text = ''password =apikey =____________________''"

text \<open>A token of sixteen different letters, written in groups of four.\<close>

definition dashed_token :: string where
  "dashed_token = ''abcd-efgh-ijkl-mnop''"

section \<open>Notions used to state the properties of the loader\<close>

text \<open>A call that runs on its own: \<open>n\<close> steps of one task.\<close>

fun run_alone :: "collaborators \<Rightarrow> nat \<Rightarrow> pc \<times> engine \<Rightarrow> pc \<times> engine" where
  "run_alone env 0 st = st"
| "run_alone env (Suc n) st = run_alone env n (advance env (fst st) (snd st))"

section \<open>Properties of the string primitives\<close>

lemma split_ws_nonempty: "split_ws s \<noteq> []"
  by (induction s rule: split_ws.induct) (auto split: list.splits)

lemma tokens_dropWhile: "tokens (dropWhile is_ws s) = tokens s"
  by (cases s) (auto simp: tokens_def)

lemma tokens_Cons_ws: "is_ws c \<Longrightarrow> tokens (c # cs) = tokens cs"
  using tokens_dropWhile [of cs] by (simp add: tokens_def)

text \<open>
  White space at the end changes neither the first field of the split nor the
  non-empty fields after it.
\<close>

lemma split_ws_snoc_ws:
  "is_ws c \<Longrightarrow> hd (split_ws (xs @ [c])) = hd (split_ws xs)
     \<and> filter (\<lambda>w. 0 < length w) (tl (split_ws (xs @ [c])))
       = filter (\<lambda>w. 0 < length w) (tl (split_ws xs))"
proof (induction xs rule: split_ws.induct)
  case 1
  then show ?case by simp
next
  case (2 d ds)
  show ?case
  proof (cases "is_ws d")
    case True
    show ?thesis
    proof (cases "\<forall>x\<in>set ds. is_ws x")
      case all: True
      then have dw0: "dropWhile is_ws (ds @ [c]) = []" "dropWhile is_ws ds = []"
        using 2(3) by auto
      have "split_ws ((d # ds) @ [c]) = [[], []]" "split_ws (d # ds) = [[], []]"
        using True dw0 by (simp_all del: dropWhile_eq_Nil_conv)
      then show ?thesis by simp
    next
      case False
      then have dw: "dropWhile is_ws (ds @ [c]) = dropWhile is_ws ds @ [c]"
        by (metis dropWhile_append1)
      have ih: "hd (split_ws (dropWhile is_ws ds @ [c])) = hd (split_ws (dropWhile is_ws ds))
         \<and> filter (\<lambda>w. 0 < length w) (tl (split_ws (dropWhile is_ws ds @ [c])))
           = filter (\<lambda>w. 0 < length w) (tl (split_ws (dropWhile is_ws ds)))"
        using 2(1) [OF True 2(3)] .
      obtain a as where a: "split_ws (dropWhile is_ws ds @ [c]) = a # as"
        using split_ws_nonempty by (cases "split_ws (dropWhile is_ws ds @ [c])") auto
      obtain b bs where b: "split_ws (dropWhile is_ws ds) = b # bs"
        using split_ws_nonempty by (cases "split_ws (dropWhile is_ws ds)") auto
      show ?thesis using True dw ih a b by simp
    qed
  next
    case False
    have ih: "hd (split_ws (ds @ [c])) = hd (split_ws ds)
         \<and> filter (\<lambda>w. 0 < length w) (tl (split_ws (ds @ [c])))
           = filter (\<lambda>w. 0 < length w) (tl (split_ws ds))"
      using 2(2) [OF False 2(3)] .
    obtain a as where a: "split_ws (ds @ [c]) = a # as"
      using split_ws_nonempty by (cases "split_ws (ds @ [c])") auto
    obtain b bs where b: "split_ws ds = b # bs"
      using split_ws_nonempty by (cases "split_ws ds") auto
    show ?thesis using False ih a b by simp
  qed
qed

lemma tokens_snoc_ws:
  assumes c: "is_ws c"
  shows "tokens (xs @ [c]) = tokens xs"
proof -
  obtain a as where a: "split_ws (xs @ [c]) = a # as"
    using split_ws_nonempty by (cases "split_ws (xs @ [c])") auto
  obtain b bs where b: "split_ws xs = b # bs"
    using split_ws_nonempty by (cases "split_ws xs") auto
  show ?thesis using split_ws_snoc_ws [OF c, of xs] a b by (simp add: tokens_def)
qed

lemma tokens_drop_trailing: "tokens (rev (dropWhile is_ws (rev xs))) = tokens xs"
proof (induction xs rule: rev_induct)
  case Nil
  then show ?case by simp
next
  case (snoc c ys)
  then show ?case by (simp add: tokens_snoc_ws)
qed

text \<open>Trimming a string does not change its words.\<close>

lemma tokens_trim: "tokens (trim q) = tokens q"
  by (simp add: trim_def tokens_drop_trailing tokens_dropWhile)

lemma tokens_empty_iff: "tokens q = [] \<longleftrightarrow> (\<forall>c\<in>set q. is_ws c)"
proof (induction q)
  case Nil
  then show ?case by (simp add: tokens_def)
next
  case (Cons c cs)
  show ?case
  proof (cases "is_ws c")
    case True
    then show ?thesis using Cons by (simp add: tokens_Cons_ws)
  next
    case False
    then show ?thesis by (auto simp: tokens_def split: list.splits)
  qed
qed

lemma trim_empty_iff: "trim q = [] \<longleftrightarrow> (\<forall>c\<in>set q. is_ws c)"
proof -
  have "trim q = [] \<longleftrightarrow> (\<forall>c\<in>set (dropWhile is_ws q). is_ws c)"
    by (simp add: trim_def)
  also have "\<dots> \<longleftrightarrow> dropWhile is_ws q = []"
    by (metis dropWhile_eq_Nil_conv hd_dropWhile list.set_sel(1) empty_iff list.set(1))
  also have "\<dots> \<longleftrightarrow> (\<forall>c\<in>set q. is_ws c)"
    by simp
  finally show ?thesis .
qed

section \<open>Properties of the retrieval engine\<close>

lemma initializeIndex_loaded:
  "initializeIndex env (loaded_engine idx kb l) = (Inr (), loaded_engine idx kb l)"
  by (simp add: initializeIndex_def loaded_engine_def)

lemma structured_raw_of: "structured (raw_of kb) = Some kb"
  by (simp add: structured_def raw_of_def)

text \<open>On an initialised engine \<open>search\<close> is its body, and the engine is left as it is.\<close>

lemma search_on_loaded:
  "search env (loaded_engine idx kb l) q filters limit mode
     = (search_loaded (pipe env) idx kb q filters limit mode, loaded_engine idx kb l)"
  by (simp add: search_def initializeIndex_loaded structured_raw_of)
     (simp add: loaded_engine_def structured_raw_of)

text \<open>
  C2, as the code has it. On an initialised engine, a query with fewer than two words
  is refused with the validation error in every mode when it has exactly one word; a
  query with no word at all (empty, or white space only) is answered with the empty
  list, without an error.
\<close>

theorem search_short_query:
  assumes short: "length (tokens q) < 2"
  shows "fst (search env (loaded_engine idx kb l) q filters limit mode)
           = (if tokens q = [] then Inr [] else Inl MinWords)"
proof -
  have e: "trim q = [] \<longleftrightarrow> tokens q = []"
    by (simp add: tokens_empty_iff trim_empty_iff)
  show ?thesis
    using short by (simp add: search_on_loaded search_loaded_def Let_def tokens_trim e)
qed

lemma tokens_alpha: "tokens ''alpha'' = [''alpha'']"
  by code_simp

theorem search_short_query_witness:
  "length (tokens ''alpha'') < 2
     \<and> fst (search example_env (loaded_engine (fixed_index [hit doc_a 0.8]) (example_kb [doc_a] None) [])
              ''alpha'' None 20 Semantic) = Inl MinWords"
  using search_short_query [of "''alpha''" example_env "fixed_index [hit doc_a 0.8]"
      "example_kb [doc_a] None" "[]" None 20 Semantic]
  by (simp add: tokens_alpha)

text \<open>
  The claim of C2 fails at the empty query: the search returns the empty list instead
  of failing.
\<close>

theorem search_empty_query_counterexample:
  "length (tokens []) < 2
     \<and> fst (search example_env (loaded_engine (fixed_index [hit doc_a 0.8]) (example_kb [doc_a] None) [])
              [] None 20 Keyword) = Inr []"
  by (simp add: search_on_loaded search_loaded_def trim_def tokens_def)

lemma tokens_alpha_beta: "tokens ''alpha beta'' = [''alpha'', ''beta'']"
  by code_simp

lemma trim_alpha_beta: "trim ''alpha beta'' = ''alpha beta''"
  by code_simp

lemma doc_ids:
  "doc_id doc_a = ''r:a.md:0''" "doc_id doc_b = ''r:b.md:0''" "doc_id doc_c = ''s:c.md:0''"
  by (simp_all add: doc_a_def doc_b_def doc_c_def example_doc_def)

lemma doc_repos: "repo doc_a = ''r''" "repo doc_b = ''r''" "repo doc_c = ''s''"
  by (simp_all add: doc_a_def doc_b_def doc_c_def example_doc_def)

subsection \<open>Semantic mode\<close>

text \<open>
  The result loop returns the first \<open>limit\<close> candidates that have a document and pass the
  filters.
\<close>

lemma collect_results_eq:
  "length acc < limit \<Longrightarrow>
     collect_results kb filters limit xs acc
       = take limit (acc @ List.map_filter (to_result kb filters) xs)"
proof (induction xs arbitrary: acc)
  case Nil
  then show ?case by (simp add: List.map_filter_simps)
next
  case (Cons p xs)
  obtain docId s where p: "p = (docId, s)" by (cases p)
  show ?case
  proof (cases "to_result kb filters p")
    case None
    then show ?thesis using Cons p
      by (auto simp: to_result_def List.map_filter_simps split: option.splits if_splits)
  next
    case (Some r)
    then obtain d where d: "find (\<lambda>d. doc_id d = docId) (docs kb) = Some d"
      "passes_filters filters d" "r = \<lparr>doc = d, score = s, matchData = None\<rparr>"
      using p by (auto simp: to_result_def split: option.splits if_splits)
    show ?thesis
    proof (cases "limit \<le> length (acc @ [r])")
      case True
      then have "limit - length acc = Suc 0" using Cons.prems by simp
      then show ?thesis using d p Some True by (simp add: List.map_filter_simps)
    next
      case False
      then have "length (acc @ [r]) < limit" by simp
      from Cons.IH [OF this] show ?thesis using d p Some False
        by (simp add: List.map_filter_simps)
    qed
  qed
qed

lemma collect_results_take:
  "collect_results kb filters limit (take (limit * 2) xs) []
     = take limit (List.map_filter (to_result kb filters) (take (limit * 2) xs))"
proof (cases "limit = 0")
  case True
  then show ?thesis by simp
next
  case False
  then show ?thesis using collect_results_eq [of "[]" limit kb filters] by simp
qed

text \<open>The candidates all have a positive similarity and come by descending similarity.\<close>

lemma similarities_positive: "p \<in> set (sort_similarities (similarities_of v emb)) \<Longrightarrow> 0 < snd p"
  by (auto simp: sort_similarities_def similarities_of_def)

lemma sort_similarities_descending:
  "sorted_wrt (\<lambda>a b. snd b \<le> snd a) (sort_similarities xs)"
proof -
  have "sorted (map (\<lambda>p. - snd p) (sort_key (\<lambda>p. - snd p) xs))"
    by (rule sorted_sort_key)
  then show ?thesis by (simp add: sort_similarities_def sorted_wrt_map)
qed

lemma hasEmbeddings_iff:
  "hasEmbeddings kb \<longleftrightarrow> (\<exists>emb. embeddingsLite (index kb) = Some emb \<and> emb \<noteq> [])"
  by (auto simp: hasEmbeddings_def split: option.splits)

text \<open>
  C3, as the code has it. In semantic mode, for a query of at least two words that the
  text index accepts: without a non-empty vector map the search fails with the
  "embeddings required" error; with one, and with the query vector \<open>v\<close> computed from the
  trimmed query cut at 512 characters, the positive cosine similarities are sorted by
  descending score, only the first \<open>2 * limit\<close> of them are kept, those are mapped to
  their documents and filtered, and the first \<open>limit\<close> survivors are returned; when the
  embedding pipeline fails, the result is the empty list.
\<close>

theorem semantic_search_pipeline:
  assumes "2 \<le> length (tokens q)" and "idx (trim q) = Inr hits"
  shows "(\<not> hasEmbeddings kb \<longrightarrow>
            fst (search env (loaded_engine idx kb l) q filters limit Semantic) = Inl EmbeddingsRequired)
       \<and> (embeddingsLite (index kb) = Some emb \<and> emb \<noteq> []
            \<and> pipe env (if 512 < length (trim q) then take 512 (trim q) else trim q) = Some v \<longrightarrow>
          fst (search env (loaded_engine idx kb l) q filters limit Semantic)
            = Inr (take limit (List.map_filter (to_result kb filters)
                     (take (limit * 2) (sort_similarities (similarities_of v emb))))))
       \<and> (hasEmbeddings kb
            \<and> pipe env (if 512 < length (trim q) then take 512 (trim q) else trim q) = None \<longrightarrow>
          fst (search env (loaded_engine idx kb l) q filters limit Semantic) = Inr [])"
proof -
  have ne: "trim q \<noteq> []"
    using assms(1) tokens_trim [of q] by (auto simp: tokens_def)
  have w: "\<not> length (tokens (trim q)) < 2"
    using assms(1) by (simp add: tokens_trim)
  have 1: "\<not> hasEmbeddings kb \<longrightarrow>
           fst (search env (loaded_engine idx kb l) q filters limit Semantic) = Inl EmbeddingsRequired"
    using ne w assms(2) by (simp add: search_on_loaded search_loaded_def Let_def)
  have 2: "embeddingsLite (index kb) = Some emb \<and> emb \<noteq> []
           \<and> pipe env (if 512 < length (trim q) then take 512 (trim q) else trim q) = Some v \<longrightarrow>
         fst (search env (loaded_engine idx kb l) q filters limit Semantic)
           = Inr (take limit (List.map_filter (to_result kb filters)
                    (take (limit * 2) (sort_similarities (similarities_of v emb)))))"
    using ne w assms(2)
    by (simp add: search_on_loaded search_loaded_def Let_def hasEmbeddings_def semanticSearch_def
        generateQueryEmbedding_def collect_results_take)
  have 3: "hasEmbeddings kb
           \<and> pipe env (if 512 < length (trim q) then take 512 (trim q) else trim q) = None \<longrightarrow>
         fst (search env (loaded_engine idx kb l) q filters limit Semantic) = Inr []"
    using ne w assms(2)
    by (auto simp: search_on_loaded search_loaded_def Let_def hasEmbeddings_iff semanticSearch_def
        generateQueryEmbedding_def)
  show ?thesis using 1 2 3 by blast
qed

theorem semantic_search_pipeline_witness:
  "2 \<le> length (tokens ''alpha beta'')
   \<and> fixed_index [] (trim ''alpha beta'') = Inr []
   \<and> \<not> hasEmbeddings (example_kb [doc_a] None)
   \<and> fst (search example_env (loaded_engine (fixed_index []) (example_kb [doc_a] None) [])
            ''alpha beta'' None 1 Semantic) = Inl EmbeddingsRequired
   \<and> embeddingsLite (index a_kb) = Some [(doc_id doc_a, [0.6, 0.8])]
   \<and> pipe example_env ''alpha beta'' = Some [1, 0]
   \<and> fst (search example_env (loaded_engine (fixed_index []) a_kb []) ''alpha beta'' None 1 Semantic)
       = Inr [\<lparr>doc = doc_a, score = 0.6, matchData = None\<rparr>]"
proof -
  have h1: "2 \<le> length (tokens ''alpha beta'')" by (simp add: tokens_alpha_beta)
  have h2: "fixed_index [] (trim ''alpha beta'') = Inr []" by (simp add: fixed_index_def)
  have h3: "\<not> hasEmbeddings (example_kb [doc_a] None)" by (simp add: hasEmbeddings_def example_kb_def)
  have h4: "embeddingsLite (index a_kb) = Some [(doc_id doc_a, [0.6, 0.8])]"
    by (simp add: a_kb_def example_kb_def)
  have h5: "pipe example_env ''alpha beta'' = Some [1, 0]"
    by (simp add: example_env_def unit_pipe_def)
  have v: "take 1 (List.map_filter (to_result a_kb None)
              (take (1 * 2) (sort_similarities (similarities_of [1, 0] [(doc_id doc_a, [0.6, 0.8])]))))
         = [\<lparr>doc = doc_a, score = 0.6, matchData = None\<rparr>]"
    by (simp add: sort_similarities_def similarities_of_def cosineSimilarity_def to_result_def
        List.map_filter_simps a_kb_def example_kb_def passes_filters_def)
  show ?thesis
    using h1 h3 h4 h5 v
      semantic_search_pipeline [where q = "''alpha beta''" and idx = "fixed_index []"
        and hits = "[]" and kb = "example_kb [doc_a] None" and env = example_env and l = "[]"
        and filters = None and limit = 1]
      semantic_search_pipeline [where q = "''alpha beta''" and idx = "fixed_index []"
        and hits = "[]" and kb = a_kb and emb = "[(doc_id doc_a, [0.6, 0.8])]"
        and env = example_env and v = "[1, 0]" and l = "[]" and filters = None and limit = 1]
    by (simp add: trim_alpha_beta fixed_index_def)
qed

text \<open>
  The claim of C3 fails where a document that is similar and passes the filters is
  ranked behind \<open>2 * limit\<close> others: with three documents of similarity 1, 0.8 and 0.6,
  a filter that only the third passes, and \<open>limit = 1\<close>, the search returns nothing.
\<close>

theorem semantic_early_cut_counterexample:
  "fst (search example_env (loaded_engine (fixed_index []) abc_kb []) ''alpha beta''
          (Some (repo_filter ''s'')) 1 Semantic) = Inr []
   \<and> semantic_as_claimed abc_kb (Some (repo_filter ''s'')) 1 [1, 0]
       = [\<lparr>doc = doc_c, score = 0.6, matchData = None\<rparr>]"
proof -
  have q: "generateQueryEmbedding (pipe example_env) ''alpha beta'' = Some [1, 0]"
    by (simp add: generateQueryEmbedding_def example_env_def unit_pipe_def)
  have 1: "fst (search example_env (loaded_engine (fixed_index []) abc_kb []) ''alpha beta''
          (Some (repo_filter ''s'')) 1 Semantic) = Inr []"
    by (simp add: search_on_loaded search_loaded_def Let_def trim_alpha_beta tokens_alpha_beta
        fixed_index_def hasEmbeddings_def semanticSearch_def q
        sort_similarities_def similarities_of_def cosineSimilarity_def
        abc_kb_def example_kb_def doc_ids doc_repos passes_filters_def repo_filter_def truthy_def)
  have 2: "semantic_as_claimed abc_kb (Some (repo_filter ''s'')) 1 [1, 0]
       = [\<lparr>doc = doc_c, score = 0.6, matchData = None\<rparr>]"
    by (simp add: semantic_as_claimed_def List.map_filter_simps to_result_def
        sort_similarities_def similarities_of_def cosineSimilarity_def
        abc_kb_def example_kb_def doc_ids doc_repos passes_filters_def repo_filter_def truthy_def)
  show ?thesis using 1 2 by simp
qed

subsection \<open>Hybrid mode\<close>

lemma map_of_set_score:
  "map_of c k = Some e \<Longrightarrow> map_of (set_score k v c) k = Some (e\<lparr>score := v\<rparr>)"
  by (induction c) (auto split: if_splits)

lemma map_of_set_score_any:
  "map_of (set_score k v c) i
     = (if i = k then map_option (\<lambda>e. e\<lparr>score := v\<rparr>) (map_of c k) else map_of c i)"
  by (induction c) auto

text \<open>What one semantic insertion does to the entry of any id.\<close>

lemma map_of_add_semantic:
  "map_of (add_semantic c s) i
     = (if i = doc_id (doc s)
        then (case map_of c i of
                None \<Rightarrow> Some (s\<lparr>score := score s * 0.4\<rparr>)
              | Some e \<Rightarrow> Some (e\<lparr>score := (score e + score s * 0.4) / 1.4\<rparr>))
        else map_of c i)"
  by (auto simp: add_semantic_def map_of_set_score_any map_add_def split: option.splits)

lemma map_of_foldl_add_semantic:
  "distinct (map (\<lambda>r. doc_id (doc r)) ss) \<Longrightarrow>
   map_of (foldl add_semantic c ss) i
     = (case find (\<lambda>r. doc_id (doc r) = i) ss of
          None \<Rightarrow> map_of c i
        | Some s \<Rightarrow>
            (case map_of c i of
               None \<Rightarrow> Some (s\<lparr>score := score s * 0.4\<rparr>)
             | Some e \<Rightarrow> Some (e\<lparr>score := (score e + score s * 0.4) / 1.4\<rparr>)))"
proof (induction ss arbitrary: c)
  case Nil
  then show ?case by simp
next
  case (Cons s ss)
  have d: "distinct (map (\<lambda>r. doc_id (doc r)) ss)" using Cons.prems by simp
  show ?case
  proof (cases "doc_id (doc s) = i")
    case True
    then have "find (\<lambda>r. doc_id (doc r) = i) ss = None"
      using Cons.prems by (auto simp: find_None_iff image_iff)
    then show ?thesis using True Cons.IH [OF d, of "add_semantic c s"]
      by (simp add: map_of_add_semantic)
  next
    case False
    then have "map_of (add_semantic c s) i = map_of c i"
      by (auto simp: map_of_add_semantic)
    then show ?thesis using False Cons.IH [OF d, of "add_semantic c s"]
      by (simp cong: option.case_cong)
  qed
qed

lemma map_of_weighted_keywords:
  "map_of (map (\<lambda>r. (doc_id (doc r), weighted w r)) ks) i
     = map_option (weighted w) (find (\<lambda>r. doc_id (doc r) = i) ks)"
  by (induction ks) auto

text \<open>Keyword results of distinct documents enter the map one after the other.\<close>

lemma foldl_add_keyword_distinct:
  "distinct (map (\<lambda>r. doc_id (doc r)) rs) \<Longrightarrow>
   set (map (\<lambda>r. doc_id (doc r)) rs) \<inter> set (map fst c) = {} \<Longrightarrow>
   foldl add_keyword c rs = c @ map (\<lambda>r. (doc_id (doc r), weighted 0.6 r)) rs"
proof (induction rs arbitrary: c)
  case Nil
  then show ?case by simp
next
  case (Cons r rs)
  have none: "map_of c (doc_id (doc r)) = None"
    using Cons.prems(2) by (auto simp: map_of_eq_None_iff)
  have step: "add_keyword c r = c @ [(doc_id (doc r), weighted 0.6 r)]"
    using none by (simp add: add_keyword_def weighted_def)
  have "foldl add_keyword (c @ [(doc_id (doc r), weighted 0.6 r)]) rs
      = (c @ [(doc_id (doc r), weighted 0.6 r)]) @ map (\<lambda>r. (doc_id (doc r), weighted 0.6 r)) rs"
    using Cons.prems by (intro Cons.IH) auto
  then show ?case using step by simp
qed

text \<open>
  C1, as the code has it. A result whose document is not yet in the map is appended
  with its score times 0.6 (keyword) or 0.4 (semantic); for a document already in the
  map the stored score becomes (existing + incoming weighted) / (1 + incoming weight).
  So for keyword results and semantic results that each name no document twice, a
  document found by both ends with score (0.6 k + 0.4 s) / 1.4, one found by the
  keyword search only with 0.6 k, and one found by the semantic search only with 0.4 s.
  For one document with keyword score 0.8 and semantic score 0.6 the combined score is
  ((0.8 * 0.6) + (0.6 * 0.4)) / (1 + 0.4) = 18/35, about 0.5143.
\<close>

theorem hybrid_running_average:
  "(map_of c (doc_id (doc r)) = None \<longrightarrow>
      add_keyword c r = c @ [(doc_id (doc r), r\<lparr>score := score r * 0.6\<rparr>)]
      \<and> add_semantic c r = c @ [(doc_id (doc r), r\<lparr>score := score r * 0.4\<rparr>)])
   \<and> (map_of c (doc_id (doc r)) = Some e \<longrightarrow>
        map_of (add_keyword c r) (doc_id (doc r))
          = Some (e\<lparr>score := (score e + score r * 0.6) / (1 + 0.6)\<rparr>)
        \<and> map_of (add_semantic c r) (doc_id (doc r))
          = Some (e\<lparr>score := (score e + score r * 0.4) / (1 + 0.4)\<rparr>))
   \<and> (distinct (map (\<lambda>r. doc_id (doc r)) ks) \<and> distinct (map (\<lambda>r. doc_id (doc r)) ss) \<longrightarrow>
        map_of (combine_hybrid ks ss) i
          = (case (find (\<lambda>r. doc_id (doc r) = i) ks, find (\<lambda>r. doc_id (doc r) = i) ss) of
               (None, None) \<Rightarrow> None
             | (Some k, None) \<Rightarrow> Some (k\<lparr>score := score k * 0.6\<rparr>)
             | (None, Some s) \<Rightarrow> Some (s\<lparr>score := score s * 0.4\<rparr>)
             | (Some k, Some s) \<Rightarrow>
                 Some (k\<lparr>score := (score k * 0.6 + score s * 0.4) / (1 + 0.4)\<rparr>)))
   \<and> (doc_id (doc k) = doc_id (doc s) \<and> score k = 0.8 \<and> score s = 0.6 \<longrightarrow>
        map (\<lambda>p. score (snd p)) (combine_hybrid [k] [s]) = [18 / 35])"
proof (intro conjI impI)
  assume "map_of c (doc_id (doc r)) = None"
  then show "add_keyword c r = c @ [(doc_id (doc r), r\<lparr>score := score r * 0.6\<rparr>)]"
    and "add_semantic c r = c @ [(doc_id (doc r), r\<lparr>score := score r * 0.4\<rparr>)]"
    by (simp_all add: add_keyword_def add_semantic_def)
next
  assume "map_of c (doc_id (doc r)) = Some e"
  then show "map_of (add_keyword c r) (doc_id (doc r))
          = Some (e\<lparr>score := (score e + score r * 0.6) / (1 + 0.6)\<rparr>)"
    and "map_of (add_semantic c r) (doc_id (doc r))
          = Some (e\<lparr>score := (score e + score r * 0.4) / (1 + 0.4)\<rparr>)"
    by (simp_all add: add_keyword_def add_semantic_def map_of_set_score)
next
  assume a: "distinct (map (\<lambda>r. doc_id (doc r)) ks) \<and> distinct (map (\<lambda>r. doc_id (doc r)) ss)"
  have kw: "foldl add_keyword [] ks = map (\<lambda>r. (doc_id (doc r), weighted 0.6 r)) ks"
    using foldl_add_keyword_distinct [of ks "[]"] a by simp
  show "map_of (combine_hybrid ks ss) i
          = (case (find (\<lambda>r. doc_id (doc r) = i) ks, find (\<lambda>r. doc_id (doc r) = i) ss) of
               (None, None) \<Rightarrow> None
             | (Some k, None) \<Rightarrow> Some (k\<lparr>score := score k * 0.6\<rparr>)
             | (None, Some s) \<Rightarrow> Some (s\<lparr>score := score s * 0.4\<rparr>)
             | (Some k, Some s) \<Rightarrow>
                 Some (k\<lparr>score := (score k * 0.6 + score s * 0.4) / (1 + 0.4)\<rparr>))"
  proof -
    have "map_of (combine_hybrid ks ss) i
        = (case find (\<lambda>r. doc_id (doc r) = i) ss of
             None \<Rightarrow> map_option (weighted 0.6) (find (\<lambda>r. doc_id (doc r) = i) ks)
           | Some s \<Rightarrow>
               (case map_option (weighted 0.6) (find (\<lambda>r. doc_id (doc r) = i) ks) of
                  None \<Rightarrow> Some (s\<lparr>score := score s * 0.4\<rparr>)
                | Some e \<Rightarrow> Some (e\<lparr>score := (score e + score s * 0.4) / 1.4\<rparr>)))"
      unfolding combine_hybrid_def kw
      using a by (simp only: map_of_foldl_add_semantic map_of_weighted_keywords)
    then show ?thesis
      by (cases "find (\<lambda>r. doc_id (doc r) = i) ks"; cases "find (\<lambda>r. doc_id (doc r) = i) ss")
         (simp_all add: weighted_def)
  qed
next
  assume "doc_id (doc k) = doc_id (doc s) \<and> score k = 0.8 \<and> score s = 0.6"
  then show "map (\<lambda>p. score (snd p)) (combine_hybrid [k] [s]) = [18 / 35]"
    by (simp add: add_keyword_def add_semantic_def combine_hybrid_def)
qed

theorem hybrid_running_average_witness:
  "map_of [] (doc_id (doc \<lparr>doc = doc_a, score = 0.8, matchData = None\<rparr>)) = None
   \<and> add_keyword [] \<lparr>doc = doc_a, score = 0.8, matchData = None\<rparr>
       = [(doc_id doc_a, \<lparr>doc = doc_a, score = 0.8 * 0.6, matchData = None\<rparr>)]
   \<and> map_of [(doc_id doc_a, \<lparr>doc = doc_a, score = 0.48, matchData = None\<rparr>)]
        (doc_id (doc \<lparr>doc = doc_a, score = 0.6, matchData = None\<rparr>))
       = Some \<lparr>doc = doc_a, score = 0.48, matchData = None\<rparr>
   \<and> map_of (add_semantic [(doc_id doc_a, \<lparr>doc = doc_a, score = 0.48, matchData = None\<rparr>)]
                \<lparr>doc = doc_a, score = 0.6, matchData = None\<rparr>) (doc_id doc_a)
       = Some \<lparr>doc = doc_a, score = 18 / 35, matchData = None\<rparr>
   \<and> distinct (map (\<lambda>r. doc_id (doc r)) [\<lparr>doc = doc_a, score = 0.8, matchData = None\<rparr>])
   \<and> map_of (combine_hybrid [\<lparr>doc = doc_a, score = 0.8, matchData = None\<rparr>]
                             [\<lparr>doc = doc_a, score = 0.6, matchData = None\<rparr>]) (doc_id doc_a)
       = Some \<lparr>doc = doc_a, score = 18 / 35, matchData = None\<rparr>
   \<and> map (\<lambda>p. score (snd p))
        (combine_hybrid [\<lparr>doc = doc_a, score = 0.8, matchData = None\<rparr>]
                        [\<lparr>doc = doc_a, score = 0.6, matchData = None\<rparr>]) = [18 / 35]"
  using hybrid_running_average [where c = "[]" and r = "\<lparr>doc = doc_a, score = 0.8, matchData = None\<rparr>"
      and ks = "[\<lparr>doc = doc_a, score = 0.8, matchData = None\<rparr>]"
      and ss = "[\<lparr>doc = doc_a, score = 0.6, matchData = None\<rparr>]" and i = "doc_id doc_a"
      and k = "\<lparr>doc = doc_a, score = 0.8, matchData = None\<rparr>"
      and s = "\<lparr>doc = doc_a, score = 0.6, matchData = None\<rparr>"]
    hybrid_running_average [where c = "[(doc_id doc_a, \<lparr>doc = doc_a, score = 0.48, matchData = None\<rparr>)]"
      and r = "\<lparr>doc = doc_a, score = 0.6, matchData = None\<rparr>"
      and e = "\<lparr>doc = doc_a, score = 0.48, matchData = None\<rparr>"]
  by simp

text \<open>
  The value the claim of C1 gives for its example is not the value of its own formula,
  nor what the search returns: a hybrid search in which one document has keyword score
  0.8 and cosine similarity 0.6 returns it with score 18/35, which is not 0.4286 to four
  decimals.
\<close>

theorem hybrid_example_counterexample:
  "fst (search example_env (loaded_engine (fixed_index [hit doc_a 0.8]) a_kb [])
          ''alpha beta'' None 20 Hybrid)
     = Inr [\<lparr>doc = doc_a, score = 18 / 35, matchData = None\<rparr>]
   \<and> \<not> \<bar>18 / 35 - 0.4286\<bar> < (0.0001 :: real)"
  by (simp add: search_on_loaded search_loaded_def Let_def trim_alpha_beta tokens_alpha_beta
        fixed_index_def hasEmbeddings_def semanticSearch_def generateQueryEmbedding_def
        example_env_def unit_pipe_def hit_def map_hit_def List.map_filter_simps
        sort_similarities_def similarities_of_def cosineSimilarity_def sort_by_score_def
        combine_hybrid_def add_keyword_def add_semantic_def
        a_kb_def example_kb_def doc_ids passes_filters_def)

subsection \<open>Hybrid mode without vectors\<close>

lemma map_filter_id_map: "List.map_filter (\<lambda>r. r) (map f xs) = List.map_filter f xs"
  by (induction xs) (auto simp: List.map_filter_simps split: option.splits)

lemma map_hit_Some:
  "map_hit kb filters h = Some r \<Longrightarrow> doc_id (doc r) = ref h \<and> score r = hit_score h"
  by (auto simp: map_hit_def find_Some_iff split: option.splits if_splits)

lemma map_filter_map_hit_ids:
  "set (map (\<lambda>r. doc_id (doc r)) (List.map_filter (map_hit kb filters) hs)) \<subseteq> set (map ref hs)"
  by (induction hs) (auto simp: List.map_filter_simps dest: map_hit_Some split: option.splits)

lemma map_filter_map_hit_scores:
  "r \<in> set (List.map_filter (map_hit kb filters) hs) \<Longrightarrow> \<exists>h\<in>set hs. score r = hit_score h"
  by (induction hs) (auto simp: List.map_filter_simps dest: map_hit_Some split: option.splits)

lemma map_filter_map_hit_distinct:
  "distinct (map ref hs) \<Longrightarrow>
     distinct (map (\<lambda>r. doc_id (doc r)) (List.map_filter (map_hit kb filters) hs))"
proof (induction hs)
  case Nil
  then show ?case by (simp add: List.map_filter_simps)
next
  case (Cons h hs)
  show ?case
  proof (cases "map_hit kb filters h")
    case None
    then show ?thesis using Cons by (simp add: List.map_filter_simps)
  next
    case (Some r)
    then have "doc_id (doc r) = ref h" by (simp add: map_hit_Some)
    moreover have "ref h \<notin> set (map ref hs)" using Cons.prems by simp
    ultimately have "doc_id (doc r)
        \<notin> set (map (\<lambda>r. doc_id (doc r)) (List.map_filter (map_hit kb filters) hs))"
      using map_filter_map_hit_ids [of kb filters hs] by (metis subsetD)
    then show ?thesis using Cons Some by (simp add: List.map_filter_simps)
  qed
qed

lemma map_filter_map_hit_sorted:
  "sorted_wrt (\<lambda>a b. hit_score b \<le> hit_score a) hs \<Longrightarrow>
     sorted_wrt (\<lambda>a b. score b \<le> score a) (List.map_filter (map_hit kb filters) hs)"
proof (induction hs)
  case Nil
  then show ?case by (simp add: List.map_filter_simps)
next
  case (Cons h hs)
  show ?case
  proof (cases "map_hit kb filters h")
    case None
    then show ?thesis using Cons by (simp add: List.map_filter_simps)
  next
    case (Some r)
    then have sr: "score r = hit_score h" by (simp add: map_hit_Some)
    have "\<forall>x\<in>set (List.map_filter (map_hit kb filters) hs). score x \<le> score r"
    proof
      fix x assume "x \<in> set (List.map_filter (map_hit kb filters) hs)"
      then obtain h' where "h' \<in> set hs" "score x = hit_score h'"
        using map_filter_map_hit_scores by blast
      then show "score x \<le> score r" using Cons.prems sr by auto
    qed
    then show ?thesis using Cons Some by (simp add: List.map_filter_simps)
  qed
qed

text \<open>The stable sort leaves a list alone that is already in descending order.\<close>

lemma sort_by_score_weighted:
  assumes "sorted_wrt (\<lambda>a b. score b \<le> score a) rs"
  shows "sort_by_score (map (weighted 0.6) rs) = map (weighted 0.6) rs"
proof -
  have "sorted_wrt (\<lambda>a b. - score a \<le> - score b) (map (weighted 0.6) rs)"
    using assms by (induction rs) (auto simp: weighted_def)
  then have "sorted (map (\<lambda>r. - score r) (map (weighted 0.6) rs))"
    by (simp add: sorted_wrt_map)
  then show ?thesis unfolding sort_by_score_def by (rule sort_key_id_if_sorted)
qed

text \<open>
  A query that the engine answers without ranking anything (an empty query, a query of
  one word, a query the text index rejects) has the same answer in both modes.
\<close>

lemma hybrid_without_vectors_unranked:
  assumes "\<not> hasEmbeddings kb"
    and "length (tokens q) < 2 \<or> (\<exists>msg. idx (trim q) = Inl msg)"
  shows "fst (search env (loaded_engine idx kb l) q filters limit Hybrid)
           = fst (search env (loaded_engine idx kb l) q filters limit Keyword)"
  using assms by (auto simp: search_on_loaded search_loaded_def Let_def tokens_trim)

text \<open>
  C4. On an artifact without vectors, for a query of at least two words whose hits the
  text index returns ranked (by descending score, each document once), hybrid mode
  returns the same documents in the same order as keyword mode with the same query,
  filters and limit: the results of hybrid mode are those of keyword mode, each with its
  score multiplied by the keyword weight 0.6.
\<close>

theorem hybrid_without_vectors:
  assumes "\<not> hasEmbeddings kb" and "2 \<le> length (tokens q)"
    and "idx (trim q) = Inr hits" and "ranked hits"
  shows "\<exists>rs. fst (search env (loaded_engine idx kb l) q filters limit Keyword) = Inr rs
           \<and> fst (search env (loaded_engine idx kb l) q filters limit Hybrid)
               = Inr (map (weighted 0.6) rs)
           \<and> map doc (map (weighted 0.6) rs) = map doc rs"
proof -
  define K where "K = take (limit * 2) (List.map_filter (map_hit kb filters) (take (limit * 3) hits))"
  have ne: "trim q \<noteq> []"
    using assms(2) tokens_trim [of q] by (auto simp: tokens_def)
  have w: "\<not> length (tokens (trim q)) < 2"
    using assms(2) by (simp add: tokens_trim)
  have mf: "List.map_filter (\<lambda>r. r) (map (map_hit kb filters) (take (limit * 3) hits))
      = List.map_filter (map_hit kb filters) (take (limit * 3) hits)"
    by (rule map_filter_id_map)
  have r3: "sorted_wrt (\<lambda>a b. hit_score b \<le> hit_score a) (take (limit * 3) hits)"
    "distinct (map ref (take (limit * 3) hits))"
    using assms(4) by (simp_all add: ranked_def sorted_wrt_take take_map [symmetric] distinct_take)
  have Ks: "sorted_wrt (\<lambda>a b. score b \<le> score a) K"
    unfolding K_def using map_filter_map_hit_sorted [OF r3(1)] by (simp add: sorted_wrt_take)
  have Kd: "distinct (map (\<lambda>r. doc_id (doc r)) K)"
    unfolding K_def using map_filter_map_hit_distinct [OF r3(2), of kb filters]
    by (simp add: take_map [symmetric] distinct_take)
  have kw: "fst (search env (loaded_engine idx kb l) q filters limit Keyword) = Inr (take limit K)"
    using ne w assms(3) by (simp add: search_on_loaded search_loaded_def Let_def mf K_def)
  have comb: "map snd (combine_hybrid K []) = map (weighted 0.6) K"
    using foldl_add_keyword_distinct [OF Kd, of "[]"] by (simp add: combine_hybrid_def comp_def)
  have hy: "fst (search env (loaded_engine idx kb l) q filters limit Hybrid)
      = Inr (take limit (sort_by_score (map snd (combine_hybrid K []))))"
    using ne w assms(1,3) by (simp add: search_on_loaded search_loaded_def Let_def mf K_def)
  have "take limit (sort_by_score (map snd (combine_hybrid K []))) = map (weighted 0.6) (take limit K)"
    by (simp only: comb sort_by_score_weighted [OF Ks] take_map)
  then show ?thesis using kw hy by (simp add: weighted_def comp_def)
qed

theorem hybrid_without_vectors_witness:
  "\<not> hasEmbeddings (example_kb [doc_a, doc_b] None)
   \<and> 2 \<le> length (tokens ''alpha beta'')
   \<and> fixed_index [hit doc_b 0.9, hit doc_a 0.8] (trim ''alpha beta'') = Inr [hit doc_b 0.9, hit doc_a 0.8]
   \<and> ranked [hit doc_b 0.9, hit doc_a 0.8]
   \<and> (\<exists>rs. fst (search example_env
                 (loaded_engine (fixed_index [hit doc_b 0.9, hit doc_a 0.8]) (example_kb [doc_a, doc_b] None) [])
                 ''alpha beta'' None 20 Keyword) = Inr rs
          \<and> fst (search example_env
                 (loaded_engine (fixed_index [hit doc_b 0.9, hit doc_a 0.8]) (example_kb [doc_a, doc_b] None) [])
                 ''alpha beta'' None 20 Hybrid) = Inr (map (weighted 0.6) rs)
          \<and> map doc (map (weighted 0.6) rs) = map doc rs)"
proof -
  have h1: "\<not> hasEmbeddings (example_kb [doc_a, doc_b] None)"
    by (simp add: hasEmbeddings_def example_kb_def)
  have h2: "2 \<le> length (tokens ''alpha beta'')" by (simp add: tokens_alpha_beta)
  have h3: "fixed_index [hit doc_b 0.9, hit doc_a 0.8] (trim ''alpha beta'')
      = Inr [hit doc_b 0.9, hit doc_a 0.8]"
    by (simp add: fixed_index_def)
  have h4: "ranked [hit doc_b 0.9, hit doc_a 0.8]"
    by (simp add: ranked_def hit_def doc_ids)
  show ?thesis
    using h1 h2 h3 h4
      hybrid_without_vectors [where kb = "example_kb [doc_a, doc_b] None" and q = "''alpha beta''"
        and idx = "fixed_index [hit doc_b 0.9, hit doc_a 0.8]"
        and hits = "[hit doc_b 0.9, hit doc_a 0.8]" and env = example_env and l = "[]"
        and filters = None and limit = 20]
    by blast
qed

text \<open>
  An instance: on an artifact without vectors the one hit comes back in both modes, with
  score 0.8 in keyword mode and with the weighted score 0.48 in hybrid mode.
\<close>

lemma hybrid_without_vectors_example:
  "\<not> hasEmbeddings (example_kb [doc_a] None)
   \<and> fst (search example_env (loaded_engine (fixed_index [hit doc_a 0.8]) (example_kb [doc_a] None) [])
            ''alpha beta'' None 20 Keyword) = Inr [\<lparr>doc = doc_a, score = 0.8, matchData = None\<rparr>]
   \<and> fst (search example_env (loaded_engine (fixed_index [hit doc_a 0.8]) (example_kb [doc_a] None) [])
            ''alpha beta'' None 20 Hybrid) = Inr [\<lparr>doc = doc_a, score = 0.48, matchData = None\<rparr>]"
  by (simp add: search_on_loaded search_loaded_def Let_def trim_alpha_beta tokens_alpha_beta
        fixed_index_def hasEmbeddings_def hit_def map_hit_def List.map_filter_simps
        sort_by_score_def combine_hybrid_def add_keyword_def
        example_kb_def doc_ids passes_filters_def)

section \<open>Properties of validation and persistence\<close>

lemma validateDocs_empty_iff:
  "validateDocs idx ds = [] \<longleftrightarrow>
     (\<forall>d\<in>set ds. doc_id d \<noteq> [] \<and> repo d \<noteq> [] \<and> path d \<noteq> [] \<and> lang d \<noteq> []
        \<and> contentExcerpt d \<noteq> [] \<and> hash d \<noteq> [])"
  by (induction ds arbitrary: idx) (auto simp: validateDoc_def)

text \<open>What \<open>validateKB\<close> accepts.\<close>

lemma validateKB_errors_empty_iff:
  "validateKB_errors kb = [] \<longleftrightarrow>
     generatedAt (meta kb) \<noteq> []
     \<and> (sourceScope (meta kb) = ''public-only'' \<or> sourceScope (meta kb) = ''private-local'')
     \<and> 0 \<le> repoCount (meta kb)
     \<and> docCount (meta kb) = int (length (docs kb))
     \<and> (\<forall>d\<in>set (docs kb). doc_id d \<noteq> [] \<and> repo d \<noteq> [] \<and> path d \<noteq> [] \<and> lang d \<noteq> []
           \<and> contentExcerpt d \<noteq> [] \<and> hash d \<noteq> [])
     \<and> lunrIndex (index kb) \<noteq> []"
  unfolding validateKB_errors_def by (simp add: validateDocs_empty_iff)

text \<open>
  C8, as the code has it. When \<open>writeKB\<close> succeeds, the artifact has passed the checks of
  \<open>validateKB\<close> (the meta fields, \<open>docCount\<close> equal to the number of documents, the
  required fields of every document, a text index) and its compact encoding is within
  the size ceiling, and exactly the two encodings have been written. When it fails,
  one of these checks was violated and the file system is unchanged. No check relates
  the keys of the vector map to the documents.
\<close>

theorem writeKB_validates_before_writing:
  "(fst (writeKB ser kb outputDir fs) = Inr () \<longrightarrow>
      generatedAt (meta kb) \<noteq> []
      \<and> (sourceScope (meta kb) = ''public-only'' \<or> sourceScope (meta kb) = ''private-local'')
      \<and> 0 \<le> repoCount (meta kb)
      \<and> docCount (meta kb) = int (length (docs kb))
      \<and> (\<forall>d\<in>set (docs kb). doc_id d \<noteq> [] \<and> repo d \<noteq> [] \<and> path d \<noteq> [] \<and> lang d \<noteq> []
            \<and> contentExcerpt d \<noteq> [] \<and> hash d \<noteq> [])
      \<and> lunrIndex (index kb) \<noteq> []
      \<and> length (stringify ser kb) \<le> MAX_KB_SIZE
      \<and> snd (writeKB ser kb outputDir fs)
          = fs(join ser outputDir ''kb.json'' \<mapsto> stringify_pretty ser kb,
               join ser outputDir ''kb.min.json'' \<mapsto> stringify ser kb))
   \<and> (fst (writeKB ser kb outputDir fs) \<noteq> Inr () \<longrightarrow>
        snd (writeKB ser kb outputDir fs) = fs
        \<and> (validateKB_errors kb \<noteq> [] \<or> MAX_KB_SIZE < length (stringify ser kb)))"
  using validateKB_errors_empty_iff [of kb]
  by (auto simp: writeKB_def validateKB_def ensureSizeConstraint_def Let_def)

lemma ghost_valid: "validateKB_errors ghost_kb = []"
  by (simp add: validateKB_errors_empty_iff ghost_kb_def example_kb_def doc_a_def example_doc_def)

theorem writeKB_validates_before_writing_witness:
  "fst (writeKB example_serializer ghost_kb ''dist'' Map.empty) = Inr ()
   \<and> docCount (meta ghost_kb) = int (length (docs ghost_kb))
   \<and> length (stringify example_serializer ghost_kb) \<le> MAX_KB_SIZE
   \<and> fst (writeKB example_serializer (ghost_kb\<lparr>docs := []\<rparr>) ''dist'' Map.empty) \<noteq> Inr ()
   \<and> snd (writeKB example_serializer (ghost_kb\<lparr>docs := []\<rparr>) ''dist'' Map.empty) = Map.empty"
proof -
  have ok: "fst (writeKB example_serializer ghost_kb ''dist'' Map.empty) = Inr ()"
    using ghost_valid
    by (simp add: writeKB_def validateKB_def ensureSizeConstraint_def Let_def MAX_KB_SIZE_def
        example_serializer_def)
  have bad: "fst (writeKB example_serializer (ghost_kb\<lparr>docs := []\<rparr>) ''dist'' Map.empty) \<noteq> Inr ()"
    by (simp add: writeKB_def validateKB_def Let_def validateKB_errors_def ghost_kb_def example_kb_def)
  show ?thesis
    using ok bad
      writeKB_validates_before_writing [of example_serializer ghost_kb "''dist''" Map.empty]
      writeKB_validates_before_writing [of example_serializer "ghost_kb\<lparr>docs := []\<rparr>" "''dist''" Map.empty]
    by simp
qed

text \<open>
  The claim of C8 fails on an artifact whose vector map names a document that is not
  there: it passes every check and is written.
\<close>

theorem writeKB_ghost_vector_counterexample:
  "\<not> vector_keys_reference_docs ghost_kb
   \<and> writeKB example_serializer ghost_kb ''dist'' Map.empty
       = (Inr (), [''dist/kb.json'' \<mapsto> ''{ }'', ''dist/kb.min.json'' \<mapsto> ''{}''])"
  using ghost_valid
  by (simp add: writeKB_def validateKB_def ensureSizeConstraint_def Let_def MAX_KB_SIZE_def
      example_serializer_def vector_keys_reference_docs_def ghost_kb_def example_kb_def
      doc_a_def example_doc_def)

section \<open>Properties of the chunker\<close>

lemma digit_char_inj: "a < 10 \<Longrightarrow> b < 10 \<Longrightarrow> digit_char a = digit_char b \<Longrightarrow> a = b"
  unfolding digit_char_def by (auto split: if_splits) arith

lemma show_nat_nonempty: "show_nat n \<noteq> []"
  by (subst show_nat.simps) simp

lemma show_nat_small: "n < 10 \<Longrightarrow> show_nat n = [digit_char n]"
  by (subst show_nat.simps) simp

lemma show_nat_big: "\<not> n < 10 \<Longrightarrow> show_nat n = show_nat (n div 10) @ [digit_char (n mod 10)]"
  by (subst show_nat.simps) simp

text \<open>Different numbers print differently.\<close>

lemma show_nat_inj: "show_nat m = show_nat n \<Longrightarrow> m = n"
proof (induction m arbitrary: n rule: show_nat.induct)
  case (1 m)
  show ?case
  proof (cases "m < 10")
    case m: True
    show ?thesis
    proof (cases "n < 10")
      case True
      then show ?thesis using m 1(2) by (simp add: show_nat_small digit_char_inj)
    next
      case False
      then show ?thesis using m 1(2) show_nat_nonempty [of "n div 10"]
        by (simp add: show_nat_small show_nat_big)
    qed
  next
    case m: False
    show ?thesis
    proof (cases "n < 10")
      case True
      then show ?thesis using m 1(2) show_nat_nonempty [of "m div 10"]
        by (simp add: show_nat_small show_nat_big)
    next
      case False
      then have "show_nat (m div 10) = show_nat (n div 10)"
        "digit_char (m mod 10) = digit_char (n mod 10)"
        using m 1(2) by (simp_all add: show_nat_big)
      then have "m div 10 = n div 10" "m mod 10 = n mod 10"
        using 1(1) [OF m] by (auto intro: digit_char_inj)
      then show ?thesis by (metis div_mult_mod_eq)
    qed
  qed
qed

lemma split_on_nonempty: "split_on d s \<noteq> []"
  by (induction s) (auto split: list.splits)

lemma length_trim_le: "length (trim s) \<le> length s"
  unfolding trim_def
  by (metis length_dropWhile_le length_rev le_trans)

subsection \<open>Excerpts\<close>

lemma doc_step_excerpts:
  assumes a: "\<forall>d\<in>set (fst st). doc_ok options d"
  shows "\<forall>d\<in>set (fst (doc_step h content rp relativePath lng options st ic)). doc_ok options d"
proof -
  obtain documents lineOffset where st: "st = (documents, lineOffset)" by (cases st)
  obtain i c where ic: "ic = (i, c)" by (cases ic)
  have "length (trim (take (max_size options) c)) \<le> max_size options"
    using length_trim_le [of "take (max_size options) c"] by simp
  then show ?thesis using a st ic
    by (auto simp: doc_step_def Let_def doc_ok_def)
qed

lemma foldl_doc_step_excerpts:
  "\<forall>d\<in>set (fst st). doc_ok options d \<Longrightarrow>
   \<forall>d\<in>set (fst (foldl (doc_step h content rp relativePath lng options) st ics)). doc_ok options d"
proof (induction ics arbitrary: st)
  case Nil
  then show ?case by simp
next
  case (Cons ic ics)
  show ?case using Cons.IH [OF doc_step_excerpts [OF Cons.prems]] by simp
qed

text \<open>
  C6, as the code has it. Every excerpt the chunker produces is non-empty and at most
  \<open>maxChunkSize\<close> long (the configured value, 3000 when none is configured). No lower
  bound is stated: \<open>minChunkSize\<close> is tested on a chunk before it is cut and trimmed, and
  only where a chunk is closed at a heading, at a declaration boundary or at the end of
  the file.
\<close>

theorem chunkFile_excerpt_bounds:
  "\<forall>d\<in>set (chunkFile h content rp relativePath options).
     contentExcerpt d \<noteq> [] \<and> length (contentExcerpt d) \<le> max_size options"
  using foldl_doc_step_excerpts [of "([], 0)" options h content rp relativePath]
  by (simp add: chunkFile_def Let_def doc_ok_def)

lemma three_lines_chunks:
  "chunkFile plain_helpers three_lines ''r'' ''notes.txt'' \<lparr>maxChunkSize = Some 4, minChunkSize = None\<rparr>
     = [\<lparr>doc_id = ''r:notes.txt:0'', repo = ''r'', path = ''notes.txt'', lang = ''text'',
          loc = \<lparr>startLine = 1, endLine = 2\<rparr>, title = ''Untitled'',
          contentExcerpt = ''ab'' @ [newline] @ ''c'', tags = [], hash = ''0000000000000000'',
          pullRequest = None\<rparr>,
        \<lparr>doc_id = ''r:notes.txt:1'', repo = ''r'', path = ''notes.txt'', lang = ''text'',
          loc = \<lparr>startLine = 4, endLine = 5\<rparr>, title = ''Untitled'',
          contentExcerpt = ''d'' @ [newline] @ ''ef'', tags = [], hash = ''0000000000000000'',
          pullRequest = None\<rparr>]"
  by code_simp

theorem chunkFile_excerpt_bounds_witness:
  "map contentExcerpt
     (chunkFile plain_helpers three_lines ''r'' ''notes.txt'' \<lparr>maxChunkSize = Some 4, minChunkSize = None\<rparr>)
     = [''ab'' @ [newline] @ ''c'', ''d'' @ [newline] @ ''ef'']
   \<and> length (''ab'' @ [newline] @ ''c'') \<le> max_size \<lparr>maxChunkSize = Some 4, minChunkSize = None\<rparr>
   \<and> length (''d'' @ [newline] @ ''ef'') \<le> max_size \<lparr>maxChunkSize = Some 4, minChunkSize = None\<rparr>"
  using chunkFile_excerpt_bounds [of plain_helpers three_lines "''r''" "''notes.txt''"
      "\<lparr>maxChunkSize = Some 4, minChunkSize = None\<rparr>"]
  by (simp add: three_lines_chunks)

lemma is_ws_space: "is_ws CHR '' ''"
  by code_simp

lemma not_ws_a: "\<not> is_ws CHR ''a''"
  by code_simp

lemma trim_padded:
  assumes "is_ws c" and "\<not> is_ws a"
  shows "trim (a # replicate n c) = [a]"
proof -
  have "dropWhile is_ws (replicate n c @ [a]) = dropWhile is_ws [a]"
    using assms(1) by (intro dropWhile_append2) simp
  then show ?thesis using assms by (simp add: trim_def)
qed

lemma lang_notes_txt: "getLanguageFromPath ''notes.txt'' = ''text''"
  by code_simp

lemma text_not_code: "chunks_of content ''text'' options = windows (max_size options) content"
  by (simp add: chunks_of_def)

lemma default_sizes: "max_size default_options = 3000" "min_size default_options = 100"
  by (simp_all add: max_size_def min_size_def MAX_CHUNK_SIZE_def MIN_CHUNK_SIZE_def
      default_options_def)

lemma spaced_windows:
  "windows 3000 spaced_file = [CHR ''a'' # replicate 2999 CHR '' '', ''b'']"
proof -
  have t: "take 3000 spaced_file = CHR ''a'' # replicate 2999 CHR '' ''"
    by (simp add: spaced_file_def)
  have d: "drop 3000 spaced_file = ''b''"
    by (simp add: spaced_file_def)
  have "windows 3000 spaced_file = take 3000 spaced_file # windows 3000 (drop 3000 spaced_file)"
    by (subst windows.simps) (simp add: spaced_file_def)
  also have "windows 3000 (drop 3000 spaced_file) = [''b'']"
    unfolding d by (subst windows.simps, simp, subst windows.simps, simp)
  finally show ?thesis using t by simp
qed

lemma excerpts_of_doc_step:
  "map contentExcerpt (fst (doc_step h content rp relativePath lng options st (i, c)))
     = map contentExcerpt (fst st)
       @ (if c = [] \<or> trim c = [] \<or> trim (take (max_size options) c) = [] then []
          else [trim (take (max_size options) c)])"
  by (cases st) (simp add: doc_step_def Let_def)

text \<open>
  The claim of C6 fails on a text file of a letter, 2999 spaces and a letter, chunked
  with the default sizes: the first of its two documents has an excerpt of one
  character, below the minimum of 100, and is not the last.
\<close>

theorem short_excerpt_counterexample:
  "map contentExcerpt (chunkFile plain_helpers spaced_file ''r'' ''notes.txt'' default_options)
     = [''a'', ''b'']
   \<and> min_size default_options = 100"
proof -
  have z: "zip [0..<2] [CHR ''a'' # replicate 2999 CHR '' '', ''b'']
      = [(0, CHR ''a'' # replicate 2999 CHR '' ''), (1, ''b'')]"
    by (simp add: upt_rec)
  have ta: "trim (CHR ''a'' # replicate 2999 CHR '' '') = ''a''"
    by (rule trim_padded [OF is_ws_space not_ws_a])
  have ta': "trim (take 3000 (CHR ''a'' # replicate 2999 CHR '' '')) = ''a''"
    using ta by simp
  have tb: "trim ''b'' = ''b''" by code_simp
  show ?thesis
    by (simp add: chunkFile_def Let_def lang_notes_txt text_not_code default_sizes spaced_windows z
        excerpts_of_doc_step ta ta' tb)
qed

subsection \<open>Identifiers and line ranges\<close>

lemma doc_step_lines_inv:
  assumes "lines_inv (rp @ '':'' @ relativePath @ '':'') k st"
  shows "lines_inv (rp @ '':'' @ relativePath @ '':'') (Suc k)
           (doc_step h content rp relativePath lng options st (k, c))"
proof -
  obtain documents lineOffset where st: "st = (documents, lineOffset)" by (cases st)
  let ?pre = "rp @ '':'' @ relativePath @ '':''"
  have weaken: "lines_inv ?pre (Suc k) st"
    using assms unfolding lines_inv_def by (meson less_Suc_eq)
  show ?thesis
  proof (cases "c = [] \<or> length (trim c) = 0 \<or> trim (take (max_size options) c) = []")
    case True
    then show ?thesis using weaken st by (auto simp: doc_step_def Let_def)
  next
    case False
    define lines where "lines = length (split_on newline (take (nat (indexOf content c)) content))"
    define n where "n = length (split_on newline c)"
    have l1: "1 \<le> lines" unfolding lines_def
      using split_on_nonempty [of newline "take (nat (indexOf content c)) content"]
      by (simp add: Suc_le_eq)
    have n1: "1 \<le> n" unfolding n_def using split_on_nonempty [of newline c]
      by (simp add: Suc_le_eq)
    define d where "d = \<lparr>doc_id = rp @ '':'' @ relativePath @ '':'' @ show_nat k, repo = rp,
        path = relativePath, lang = lng,
        loc = \<lparr>startLine = lineOffset + lines, endLine = lineOffset + lines + n - 1\<rparr>,
        title = extractTitle h c lng, contentExcerpt = trim (take (max_size options) c),
        tags = [], hash = generateHash h c, pullRequest = None\<rparr>"
    have step: "doc_step h content rp relativePath lng options st (k, c)
        = (documents @ [d], lineOffset + lines + n - 1)"
      using False st by (simp add: doc_step_def Let_def d_def lines_def n_def)
    have fresh: "doc_id d \<notin> set (map doc_id documents)"
    proof
      assume "doc_id d \<in> set (map doc_id documents)"
      then obtain d' where d': "d' \<in> set documents" "doc_id d' = doc_id d" by auto
      then obtain j where j: "j < k" "doc_id d' = ?pre @ show_nat j"
        using assms st unfolding lines_inv_def by auto
      have "doc_id d = ?pre @ show_nat k" by (simp add: d_def)
      then have "show_nat j = show_nat k" using j(2) d'(2) by simp
      then show False using j(1) show_nat_inj by blast
    qed
    have old: "\<forall>x\<in>set documents. endLine (loc x) \<le> lineOffset"
      using assms st unfolding lines_inv_def by auto
    have "lines_inv ?pre (Suc k) (documents @ [d], lineOffset + lines + n - 1)"
      unfolding lines_inv_def
    proof (intro conjI)
      show "distinct (map doc_id (fst (documents @ [d], lineOffset + lines + n - 1)))"
        using assms st fresh unfolding lines_inv_def by simp
      show "\<forall>x\<in>set (fst (documents @ [d], lineOffset + lines + n - 1)).
              \<exists>j<Suc k. doc_id x = ?pre @ show_nat j"
        using weaken st unfolding lines_inv_def by (auto simp: d_def)
      show "\<forall>x\<in>set (fst (documents @ [d], lineOffset + lines + n - 1)).
              startLine (loc x) \<le> endLine (loc x)
              \<and> endLine (loc x) \<le> snd (documents @ [d], lineOffset + lines + n - 1)"
        using assms st l1 n1 unfolding lines_inv_def by (auto simp: d_def)
      show "sorted_wrt (\<lambda>a b. endLine (loc a) < startLine (loc b))
              (fst (documents @ [d], lineOffset + lines + n - 1))"
        using assms st l1 old unfolding lines_inv_def
        by (auto simp: sorted_wrt_append d_def)
    qed
    then show ?thesis using step by simp
  qed
qed

lemma foldl_doc_step_lines_inv:
  "lines_inv (rp @ '':'' @ relativePath @ '':'') k st \<Longrightarrow>
   lines_inv (rp @ '':'' @ relativePath @ '':'') (k + length cs)
     (foldl (doc_step h content rp relativePath lng options) st (zip [k..<k + length cs] cs))"
proof (induction cs arbitrary: k st)
  case Nil
  then show ?case by simp
next
  case (Cons c cs)
  have "[k..<k + length (c # cs)] = k # [Suc k..<Suc k + length cs]"
    by (subst upt_rec) simp
  then show ?case
    using Cons.IH [OF doc_step_lines_inv [OF Cons.prems], of h content lng options c]
    by simp
qed

text \<open>
  C7. The documents of one file have pairwise distinct ids, each has
  \<open>startLine \<le> endLine\<close>, and every document's range ends before the range of each
  later document starts.
\<close>

theorem chunkFile_ids_and_lines:
  "distinct (map doc_id (chunkFile h content rp relativePath options))
   \<and> (\<forall>d\<in>set (chunkFile h content rp relativePath options). startLine (loc d) \<le> endLine (loc d))
   \<and> sorted_wrt (\<lambda>a b. endLine (loc a) < startLine (loc b))
        (chunkFile h content rp relativePath options)"
proof -
  have "lines_inv (rp @ '':'' @ relativePath @ '':'') 0 ([], 0)"
    by (simp add: lines_inv_def)
  from foldl_doc_step_lines_inv [OF this,
      of "chunks_of content (getLanguageFromPath relativePath) options"
      h content "getLanguageFromPath relativePath" options]
  show ?thesis by (simp add: chunkFile_def Let_def lines_inv_def)
qed

theorem chunkFile_ids_and_lines_witness:
  "map doc_id
     (chunkFile plain_helpers three_lines ''r'' ''notes.txt'' \<lparr>maxChunkSize = Some 4, minChunkSize = None\<rparr>)
     = [''r:notes.txt:0'', ''r:notes.txt:1'']
   \<and> map loc
     (chunkFile plain_helpers three_lines ''r'' ''notes.txt'' \<lparr>maxChunkSize = Some 4, minChunkSize = None\<rparr>)
     = [\<lparr>startLine = 1, endLine = 2\<rparr>, \<lparr>startLine = 4, endLine = 5\<rparr>]
   \<and> distinct [''r:notes.txt:0'', ''r:notes.txt:1'']"
  using chunkFile_ids_and_lines [of plain_helpers three_lines "''r''" "''notes.txt''"
      "\<lparr>maxChunkSize = Some 4, minChunkSize = None\<rparr>"]
  by (simp add: three_lines_chunks)

section \<open>Properties of the redactor\<close>

lemma scan_pattern_inv:
  "hasSecrets acc \<or> acc = clean_scan content \<Longrightarrow>
   hasSecrets (scan_pattern content acc pn) \<or> scan_pattern content acc pn = clean_scan content"
  by (auto simp: scan_pattern_def Let_def)

lemma foldl_scan_pattern_inv:
  "hasSecrets acc \<or> acc = clean_scan content \<Longrightarrow>
   hasSecrets (foldl (scan_pattern content) acc ps) \<or> foldl (scan_pattern content) acc ps = clean_scan content"
proof (induction ps arbitrary: acc)
  case Nil
  then show ?case by simp
next
  case (Cons p ps)
  show ?case using Cons.IH [OF scan_pattern_inv [OF Cons.prems]] by simp
qed

lemma scan_word_inv:
  "hasSecrets acc \<or> acc = clean_scan content \<Longrightarrow>
   hasSecrets (scan_word acc w) \<or> scan_word acc w = clean_scan content"
  by (auto simp: scan_word_def Let_def)

lemma foldl_scan_word_inv:
  "hasSecrets acc \<or> acc = clean_scan content \<Longrightarrow>
   hasSecrets (foldl scan_word acc ws) \<or> foldl scan_word acc ws = clean_scan content"
proof (induction ws arbitrary: acc)
  case Nil
  then show ?case by simp
next
  case (Cons w ws)
  show ?case using Cons.IH [OF scan_word_inv [OF Cons.prems]] by simp
qed

text \<open>A scan that reports no secret has changed nothing.\<close>

lemma scan_without_findings:
  "\<not> hasSecrets (scanAndRedact content) \<Longrightarrow> scanAndRedact content = clean_scan content"
proof -
  assume a: "\<not> hasSecrets (scanAndRedact content)"
  have "hasSecrets (scan_patterns content) \<or> scan_patterns content = clean_scan content"
    unfolding scan_patterns_def
    by (rule foldl_scan_pattern_inv) (simp add: clean_scan_def)
  from foldl_scan_word_inv [OF this, of "split_ws content"] a
  show ?thesis by (simp add: scanAndRedact_def)
qed

subsection \<open>Every replacement shortens the text\<close>

text \<open>A match takes at least \<open>min_len\<close> characters.\<close>

lemma star_iter_length:
  assumes "\<And>s s'. s' \<in> set (f s) \<Longrightarrow> length s' \<le> length s"
  shows "rest \<in> set (star_iter f k s) \<Longrightarrow> length rest \<le> length s"
proof (induction k arbitrary: s)
  case 0
  then show ?case by simp
next
  case (Suc k)
  then show ?case by (auto dest!: Suc.IH) 
qed

lemma lazy_iter_length:
  assumes "\<And>s s'. s' \<in> set (f s) \<Longrightarrow> length s' \<le> length s"
  shows "rest \<in> set (lazy_iter f k s) \<Longrightarrow> length rest \<le> length s"
proof (induction k arbitrary: s)
  case 0
  then show ?case by simp
next
  case (Suc k)
  then show ?case by (auto dest!: Suc.IH)
qed

lemma times_iter_length:
  assumes "\<And>s s'. s' \<in> set (f s) \<Longrightarrow> length s' + m \<le> length s"
  shows "rest \<in> set (times_iter f n s) \<Longrightarrow> length rest + n * m \<le> length s"
proof (induction n arbitrary: s)
  case 0
  then show ?case by simp
next
  case (Suc n)
  then obtain s' where s': "s' \<in> set (f s)" "rest \<in> set (times_iter f n s')" by auto
  from Suc.IH [OF s'(2)] assms [OF s'(1)] show ?case by simp
qed

lemma ms_min_len: "rest \<in> set (ms r s) \<Longrightarrow> length rest + min_len r \<le> length s"
proof (induction r arbitrary: s rest)
  case (Cls p)
  then show ?case by (auto split: list.splits if_splits)
next
  case Eps
  then show ?case by simp
next
  case Eol
  then show ?case by (simp split: if_splits)
next
  case (Seq a b)
  then obtain s' where "s' \<in> set (ms a s)" "rest \<in> set (ms b s')" by auto
  then show ?case using Seq.IH(1) [of s' s] Seq.IH(2) [of rest s'] by simp
next
  case (Opt a)
  then consider "rest \<in> set (ms a s)" | "rest = s" by auto
  then show ?case
  proof cases
    case 1
    from Opt.IH [OF this] show ?thesis by simp
  next
    case 2
    then show ?thesis by simp
  qed
next
  case (Star a)
  have "length s' \<le> length s" if "s' \<in> set (ms a s)" for s s'
    using Star.IH [OF that] by simp
  from star_iter_length [of "ms a", OF this] Star.prems show ?case by simp
next
  case (LazyStar a)
  have "length s' \<le> length s" if "s' \<in> set (ms a s)" for s s'
    using LazyStar.IH [OF that] by simp
  from lazy_iter_length [of "ms a", OF this] LazyStar.prems show ?case by simp
next
  case (Rep n mx a)
  have le: "length s' \<le> length s" if "s' \<in> set (ms a s)" for s s'
    using Rep.IH [OF that] by simp
  have st: "length rest \<le> length s" if "rest \<in> set (star_iter (ms a) k s)" for k s rest
    using star_iter_length [of "ms a", OF le that] .
  have ti: "length rest + n * min_len a \<le> length s" if "rest \<in> set (times_iter (ms a) n s)"
    for s rest
    using times_iter_length [of "ms a" "min_len a", OF Rep.IH that] .
  obtain s' k where "s' \<in> set (times_iter (ms a) n s)" "rest \<in> set (star_iter (ms a) k s')"
    using Rep.prems by (cases mx) auto
  then show ?case using st [of rest k s'] ti [of s' s] by simp
qed

lemma match_here_min_len:
  "match_here r s = Some rest \<Longrightarrow> length rest + min_len r \<le> length s"
  using ms_min_len [of rest r s] by (auto simp: match_here_def split: list.splits)

text \<open>Replacing the matches of an expression by a text shorter than every match.\<close>

lemma replace_all_shrinks:
  "length rep < min_len r \<Longrightarrow> shrinks s (replace_all r rep s)"
proof (induction r rep s rule: replace_all.induct)
  case (1 r rep)
  have "match_here r [] = None"
  proof (cases "match_here r []")
    case None
    then show ?thesis .
  next
    case (Some rest)
    from match_here_min_len [OF this] 1 show ?thesis by simp
  qed
  then show ?case by (simp add: shrinks_def)
next
  case (2 r rep c cs)
  show ?case
  proof (cases "match_here r (c # cs)")
    case None
    then show ?thesis using 2(1) [OF None 2(4)] by (auto simp: shrinks_def)
  next
    case (Some rest)
    have m: "length rest + min_len r \<le> length (c # cs)" by (rule match_here_min_len [OF Some])
    then have lt: "length rest < length (c # cs)" using 2(4) by simp
    have "shrinks rest (replace_all r rep rest)" using 2(2) [OF Some lt 2(4)] .
    then have "length (rep @ replace_all r rep rest) < length (c # cs)"
      using m 2(4) by (simp add: shrinks_def)
    then show ?thesis using Some lt by (auto simp: shrinks_def)
  qed
qed

lemma shrinks_refl: "shrinks a a"
  by (simp add: shrinks_def)

lemma shrinks_trans: "shrinks a b \<Longrightarrow> shrinks b c \<Longrightarrow> shrinks a c"
  by (auto simp: shrinks_def)

lemma min_len_lit: "min_len (lit w) = length w"
  by (induction w) auto

text \<open>The marker has ten characters; every pattern needs more, and a token sixteen.\<close>

lemma patterns_long: "\<forall>pn\<in>set SECRET_PATTERNS. length REDACTION_MARKER < min_len (fst pn)"
  by code_simp

lemma scan_pattern_shrinks:
  "pn \<in> set SECRET_PATTERNS \<Longrightarrow>
     shrinks (redactedContent acc) (redactedContent (scan_pattern content acc pn))"
  using patterns_long replace_all_shrinks [of REDACTION_MARKER "fst pn" "redactedContent acc"]
  by (auto simp: scan_pattern_def Let_def shrinks_refl)

lemma foldl_scan_pattern_shrinks:
  "set ps \<subseteq> set SECRET_PATTERNS \<Longrightarrow>
     shrinks (redactedContent acc) (redactedContent (foldl (scan_pattern content) acc ps))"
proof (induction ps arbitrary: acc)
  case Nil
  then show ?case by (simp add: shrinks_refl)
next
  case (Cons p ps)
  have "shrinks (redactedContent acc) (redactedContent (scan_pattern content acc p))"
    using Cons.prems by (intro scan_pattern_shrinks) simp
  moreover have "shrinks (redactedContent (scan_pattern content acc p))
      (redactedContent (foldl (scan_pattern content) (scan_pattern content acc p) ps))"
    using Cons.prems by (intro Cons.IH) simp
  ultimately show ?case by (auto intro: shrinks_trans)
qed

lemma scan_word_shrinks: "shrinks (redactedContent acc) (redactedContent (scan_word acc w))"
proof (cases "isHighEntropySecret (filter is_alnum w) \<and> 16 \<le> length (filter is_alnum w)")
  case True
  then have "length REDACTION_MARKER < min_len (lit (filter is_alnum w))"
    by (simp add: min_len_lit REDACTION_MARKER_def)
  from replace_all_shrinks [OF this, of "redactedContent acc"] True
  show ?thesis by (simp add: scan_word_def Let_def)
next
  case False
  then show ?thesis by (auto simp: scan_word_def Let_def shrinks_refl)
qed

lemma foldl_scan_word_shrinks:
  "shrinks (redactedContent acc) (redactedContent (foldl scan_word acc ws))"
proof (induction ws arbitrary: acc)
  case Nil
  then show ?case by (simp add: shrinks_refl)
next
  case (Cons w ws)
  show ?case using scan_word_shrinks [of acc w] Cons.IH [of "scan_word acc w"]
    by (auto intro: shrinks_trans)
qed

lemma redact_shrinks: "shrinks content (redact content)"
proof -
  have "shrinks content (redactedContent (scan_patterns content))"
    using foldl_scan_pattern_shrinks [of SECRET_PATTERNS
        "\<lparr>hasSecrets = False, redactedContent = content, secretsFound = []\<rparr>" content]
    by (simp add: scan_patterns_def)
  moreover have "shrinks (redactedContent (scan_patterns content)) (redact content)"
    unfolding redact_def scanAndRedact_def by (rule foldl_scan_word_shrinks)
  ultimately show ?thesis by (rule shrinks_trans)
qed

lemma funpow_at_rest: "f x = x \<Longrightarrow> (f ^^ n) x = x"
  by (induction n) simp_all

text \<open>A function on texts that shortens whatever it changes comes to rest.\<close>

lemma funpow_fixed:
  assumes "\<And>x. shrinks x (f x)"
  shows "length x \<le> n \<Longrightarrow> f ((f ^^ n) x) = (f ^^ n) x"
proof (induction n arbitrary: x)
  case 0
  then have "x = []" by simp
  moreover have "f [] = []" using assms [of "[]"] by (simp add: shrinks_def)
  ultimately show ?case by simp
next
  case (Suc n)
  show ?case
  proof (cases "f x = x")
    case True
    then have "(f ^^ k) x = x" for k by (induction k) simp_all
    then show ?thesis using True by simp
  next
    case False
    then have "length (f x) < length x" using assms [of x] by (simp add: shrinks_def)
    then have "length (f x) \<le> n" using Suc.prems by simp
    from Suc.IH [OF this] show ?thesis by (simp add: funpow_swap1)
  qed
qed

subsection \<open>Running the redactor again\<close>

text \<open>
  C5, as the code has it. A run of the redactor on redacted text can replace more, so
  two runs need not equal one. But no run lengthens the text, and a run that changes the
  text shortens it: every match of a pattern and every reported token is longer than the
  marker that replaces it. So repeated runs come to rest: after as many runs as the
  text has characters, at the latest, a further run changes nothing.
\<close>

theorem redact_converges:
  "length (redact content) \<le> length content
   \<and> (redact content \<noteq> content \<longrightarrow> length (redact content) < length content)
   \<and> redact ((redact ^^ length content) content) = (redact ^^ length content) content"
  using redact_shrinks [of content] funpow_fixed [of redact content "length content", OF redact_shrinks]
  by (simp add: shrinks_def)

lemma scan_word_short: "length (filter is_alnum w) < 16 \<Longrightarrow> scan_word acc w = acc"
  by (simp add: scan_word_def isHighEntropySecret_def)

lemma leaking_patterns:
  "scan_patterns leaking_text
     = \<lparr>hasSecrets = True, redactedContent = ''password =[REDACTED]'',
         secretsFound = [\<lparr>secret_type = ''API Key'', count = 1\<rparr>]\<rparr>"
  unfolding leaking_text_def by code_simp

lemma leaking_words: "split_ws leaking_text = [''password'', ''=apikey'', ''=____________________'']"
  unfolding leaking_text_def by code_simp

lemma leaking_short:
  "length (filter is_alnum ''password'') < 16"
  "length (filter is_alnum ''=apikey'') < 16"
  "length (filter is_alnum ''=____________________'') < 16"
  "length (filter is_alnum ''=[REDACTED]'') < 16"
  "length (filter is_alnum ''[REDACTED]'') < 16"
  by code_simp+

lemma second_patterns:
  "scan_patterns ''password =[REDACTED]''
     = \<lparr>hasSecrets = True, redactedContent = ''[REDACTED]'',
         secretsFound = [\<lparr>secret_type = ''Password'', count = 1\<rparr>]\<rparr>"
  by code_simp

lemma second_words: "split_ws ''password =[REDACTED]'' = [''password'', ''=[REDACTED]'']"
  by code_simp

lemma marker_patterns:
  "scan_patterns ''[REDACTED]'' = \<lparr>hasSecrets = False, redactedContent = ''[REDACTED]'', secretsFound = []\<rparr>"
  by code_simp

lemma marker_words: "split_ws ''[REDACTED]'' = [''[REDACTED]'']"
  by code_simp

text \<open>Three runs on the leaking text: the key goes, then the password, then nothing.\<close>

lemma leaking_first_run: "redactedContent (scanAndRedact leaking_text) = ''password =[REDACTED]''"
  by (simp only: scanAndRedact_def leaking_patterns leaking_words foldl.simps
      scan_word_short [OF leaking_short(1)] scan_word_short [OF leaking_short(2)]
      scan_word_short [OF leaking_short(3)] SecretScanResult.simps)

lemma leaking_second_run: "redactedContent (scanAndRedact ''password =[REDACTED]'') = ''[REDACTED]''"
  by (simp only: scanAndRedact_def second_patterns second_words foldl.simps
      scan_word_short [OF leaking_short(1)] scan_word_short [OF leaking_short(4)]
      SecretScanResult.simps)

lemma leaking_third_run: "redactedContent (scanAndRedact ''[REDACTED]'') = ''[REDACTED]''"
  by (simp only: scanAndRedact_def marker_patterns marker_words foldl.simps
      scan_word_short [OF leaking_short(5)] SecretScanResult.simps)

text \<open>
  The claim of C5 fails: the patterns are matched against the original text and
  replaced in the text redacted so far, so a replacement can complete a match of an
  earlier pattern, which only the next run sees.
\<close>

theorem redact_not_idempotent_counterexample:
  "redactedContent (scanAndRedact leaking_text) = ''password =[REDACTED]''
   \<and> redactedContent (scanAndRedact (redactedContent (scanAndRedact leaking_text))) = ''[REDACTED]''"
  by (simp only: leaking_first_run leaking_second_run simp_thms)

text \<open>
  On the leaking text the first run changes and shortens the text, and the runs have
  come to rest at the marker.
\<close>

theorem redact_converges_witness:
  "redact leaking_text \<noteq> leaking_text
   \<and> length (redact leaking_text) < length leaking_text
   \<and> (redact ^^ length leaking_text) leaking_text = ''[REDACTED]''
   \<and> redact ((redact ^^ length leaking_text) leaking_text) = (redact ^^ length leaking_text) leaking_text"
proof -
  have 1: "redact leaking_text = ''password =[REDACTED]''"
    by (simp only: redact_def leaking_first_run)
  have 2: "redact ''password =[REDACTED]'' = ''[REDACTED]''"
    by (simp only: redact_def leaking_second_run)
  have 3: "redact ''[REDACTED]'' = ''[REDACTED]''"
    by (simp only: redact_def leaking_third_run)
  have ne: "redact leaking_text \<noteq> leaking_text"
    unfolding 1 by (simp add: leaking_text_def)
  have len: "length leaking_text = 36 + 2"
    by (simp add: leaking_text_def)
  have "(redact ^^ (36 + 2)) leaking_text = (redact ^^ 36) (redact (redact leaking_text))"
    by (simp only: funpow_add o_apply numeral_2_eq_2 funpow.simps id_apply)
  also have "\<dots> = (redact ^^ 36) ''[REDACTED]''"
    by (simp only: 1 2)
  also have "\<dots> = ''[REDACTED]''"
    using 3 by (rule funpow_at_rest [where f = redact])
  finally have rest: "(redact ^^ length leaking_text) leaking_text = ''[REDACTED]''"
    by (simp only: len)
  show ?thesis
    using ne rest redact_converges [of leaking_text] by blast
qed

subsection \<open>Entropy\<close>

lemma foldl_minus_const:
  "\<forall>c\<in>set xs. g c = t \<Longrightarrow> foldl (\<lambda>e c. e - g c) a xs = a - real (length xs) * t"
  by (induction xs arbitrary: a) (auto simp: algebra_simps)

lemma count_list_distinct: "distinct xs \<Longrightarrow> c \<in> set xs \<Longrightarrow> count_list xs c = 1"
  by (induction xs) auto

lemma entropy_distinct:
  assumes "distinct s" and "s \<noteq> []"
  shows "calculateEntropy s = log 2 (real (length s))"
proof -
  let ?n = "real (length s)"
  let ?g = "\<lambda>c. real (count_list s c) / ?n * log 2 (real (count_list s c) / ?n)"
  have n: "0 < ?n" using assms(2) by simp
  have "\<forall>c\<in>set s. ?g c = 1 / ?n * log 2 (1 / ?n)"
    using assms(1) by (simp add: count_list_distinct)
  then have "foldl (\<lambda>e c. e - ?g c) 0 s = 0 - ?n * (1 / ?n * log 2 (1 / ?n))"
    by (rule foldl_minus_const)
  also have "\<dots> = - log 2 (1 / ?n)" using n by simp
  also have "\<dots> = log 2 ?n" using n by (simp add: log_divide)
  finally show ?thesis
    using assms(1) by (simp add: calculateEntropy_def Let_def distinct_remdups_id)
qed

lemma log2_16: "log 2 16 = (4::real)"
proof -
  have "log 2 (2 ^ 4) = (4::real)" by (subst log_nat_power) simp_all
  then show ?thesis by simp
qed

lemma dashed_high_entropy: "isHighEntropySecret ''abcdefghijklmnop''"
proof -
  have "calculateEntropy ''abcdefghijklmnop'' = log 2 (real (length ''abcdefghijklmnop''))"
    by (rule entropy_distinct) simp_all
  then show ?thesis by (simp add: isHighEntropySecret_def log2_16)
qed

lemma dashed_patterns:
  "scan_patterns dashed_token = \<lparr>hasSecrets = False, redactedContent = dashed_token, secretsFound = []\<rparr>"
  unfolding dashed_token_def by code_simp

lemma dashed_words: "split_ws dashed_token = [dashed_token]"
  unfolding dashed_token_def by code_simp

lemma dashed_cleaned: "filter is_alnum dashed_token = ''abcdefghijklmnop''"
  unfolding dashed_token_def by code_simp

lemma dashed_replace: "replace_all (lit ''abcdefghijklmnop'') REDACTION_MARKER dashed_token = dashed_token"
  unfolding dashed_token_def by code_simp

text \<open>
  C10. For the token \<open>abcd-efgh-ijkl-mnop\<close> the redactor reports one high-entropy
  string and returns the text unchanged: the token stripped of its hyphens is what is
  tested and what is searched for, and the stripped form does not occur in the text.
\<close>

theorem high_entropy_reported_not_masked:
  "scanAndRedact dashed_token
     = \<lparr>hasSecrets = True, redactedContent = dashed_token,
         secretsFound = [\<lparr>secret_type = ''High-entropy string'', count = 1\<rparr>]\<rparr>
   \<and> filter is_alnum dashed_token = ''abcdefghijklmnop''
   \<and> isHighEntropySecret ''abcdefghijklmnop''
   \<and> replace_all (lit ''abcdefghijklmnop'') REDACTION_MARKER dashed_token = dashed_token"
proof -
  have w: "scan_word \<lparr>hasSecrets = False, redactedContent = dashed_token, secretsFound = []\<rparr> dashed_token
      = \<lparr>hasSecrets = True, redactedContent = dashed_token,
         secretsFound = [\<lparr>secret_type = ''High-entropy string'', count = 1\<rparr>]\<rparr>"
    unfolding scan_word_def dashed_cleaned Let_def
    using dashed_high_entropy dashed_replace by simp
  have "scanAndRedact dashed_token
     = \<lparr>hasSecrets = True, redactedContent = dashed_token,
         secretsFound = [\<lparr>secret_type = ''High-entropy string'', count = 1\<rparr>]\<rparr>"
    by (simp only: scanAndRedact_def dashed_patterns dashed_words foldl.simps w)
  then show ?thesis using dashed_cleaned dashed_high_entropy dashed_replace by simp
qed

section \<open>Properties of the loader\<close>

text \<open>Once the index and the artifact are in place, a call changes nothing and loads nothing.\<close>

lemma initializeIndex_reuses:
  "searchIndex s \<noteq> None \<Longrightarrow> kbData s \<noteq> None \<Longrightarrow> initializeIndex env s = (Inr (), s)"
  by (simp add: initializeIndex_def)

lemma initializeIndex_success_state:
  "initializeIndex env s = (Inr (), s') \<Longrightarrow> searchIndex s' \<noteq> None \<and> kbData s' \<noteq> None"
  by (auto simp: initializeIndex_def loadKB_def try_load_def finish_initialize_def Let_def
      split: if_splits option.splits prod.splits sum.splits response.splits)

text \<open>A call made after a call that succeeded finds everything cached.\<close>

lemma initializeIndex_twice:
  "initializeIndex env s = (Inr (), s') \<Longrightarrow> initializeIndex env s' = (Inr (), s')"
  using initializeIndex_success_state initializeIndex_reuses by blast

lemma engine_update_order:
  "s\<lparr>cachedKB := c, events := e\<rparr> = s\<lparr>events := e, cachedKB := c\<rparr>"
  by (cases s) simp

text \<open>
  The two descriptions of \<open>initializeIndex\<close> agree: a task that runs on its own ends,
  after at most six steps, with the result and the state of the call run as a whole.
\<close>

lemma run_alone_is_initializeIndex:
  "run_alone env 6 (Start, s) = (Finished (fst (initializeIndex env s)), snd (initializeIndex env s))"
proof (cases "searchIndex s \<noteq> None \<and> kbData s \<noteq> None")
  case True
  then show ?thesis by (simp add: numeral_eq_Suc initializeIndex_def)
next
  case False
  show ?thesis
  proof (cases "cachedKB s")
    case (Some kb)
    then show ?thesis using False
      by (auto simp: numeral_eq_Suc initializeIndex_def loadKB_def case_prod_unfold)
  next
    case None
    show ?thesis
    proof (cases "fetch_min env")
      case (Json data)
      then show ?thesis using False None
        by (cases "fetch_full env")
          (auto simp: numeral_eq_Suc initializeIndex_def loadKB_def try_load_def
            start_fallback_def Let_def case_prod_unfold engine_update_order)
    next
      case NotOk
      then show ?thesis using False None
        by (cases "fetch_full env")
          (auto simp: numeral_eq_Suc initializeIndex_def loadKB_def try_load_def
            start_fallback_def Let_def case_prod_unfold engine_update_order)
    next
      case BadJson
      then show ?thesis using False None
        by (cases "fetch_full env")
          (auto simp: numeral_eq_Suc initializeIndex_def loadKB_def try_load_def
            start_fallback_def Let_def case_prod_unfold engine_update_order)
    qed
  qed
qed

text \<open>
  C9 fails on the code when two calls overlap, as the six metadata calls that the
  search hook starts together do. Two calls that both start before the first request
  has been answered each find the cache empty: the compact encoding is requested
  twice, parsed twice, and the index is loaded twice.
\<close>

theorem overlapping_calls_load_twice:
  "run_schedule example_env [0, 1, 0, 1, 0, 1, 0, 1] ([Start, Start], initial_engine)
     = ([Finished (Inr ()), Finished (Inr ())],
        \<lparr>cachedKB = Some (raw_of (example_kb [doc_a] None)),
          searchIndex = Some (fixed_index [hit doc_a 0.8]),
          kbData = Some (raw_of (example_kb [doc_a] None)),
          events = [Fetch KB_MIN_PATH, Fetch KB_MIN_PATH, ParseJson KB_MIN_PATH, ParseJson KB_MIN_PATH,
                    LoadIndex, LoadIndex]\<rparr>)"
  by (simp add: example_env_def initial_engine_def structure_ok_def raw_of_def
      finish_initialize_def example_kb_def Let_def)

end
